theory Spec2Isabelle
  imports Complex_Main "HOL-Library.Char_ord" "HOL-Library.List_Lexorder" "HOL-Library.Multiset"
begin

section \<open>Tables\<close>

text \<open>
  The pandas tables the pipeline passes around. A cell is null (\<^verbatim>\<open>NaN\<close>, \<^verbatim>\<open>None\<close>, \<^verbatim>\<open>NaT\<close>: whatever
  \<^verbatim>\<open>isna\<close> accepts), a number or a string. Python floats are modelled as reals: rounding and the
  non-finite floats are outside the model. Strings are byte strings (UTF-8), compared and
  ordered bytewise, which is the code point order Python uses.

  A table is its list of column names and its list of rows; a row gives the cell of each
  column. Only the cells of the table's own columns mean anything.
\<close>

datatype cell = Null | Num real | Str string

type_synonym row = "string \<Rightarrow> cell"

record DataFrame =
  columns :: "string list"
  rows :: "row list"

text \<open>\<^verbatim>\<open>pd.DataFrame()\<close>, and \<^verbatim>\<open>df.empty\<close>: true when either axis has length 0.\<close>

definition pd_DataFrame :: DataFrame where
  "pd_DataFrame = \<lparr>columns = [], rows = []\<rparr>"

definition df_empty :: "DataFrame \<Rightarrow> bool" where
  "df_empty df \<longleftrightarrow> columns df = [] \<or> rows df = []"

text \<open>
  The exceptions of Python and pandas that the modelled code can raise. \<open>NonFiniteFloat\<close> is
  no exception: it marks a float computation that leaves the reals (a non-zero number divided
  by zero, which is an infinity in the code), where the model stops.
\<close>

datatype py_error = ValueError | KeyError | TypeError | MergeError | NonFiniteFloat

text \<open>
  Column access and element-wise assignment: \<^verbatim>\<open>df[col]\<close> and \<^verbatim>\<open>df[col] = f(df[col])\<close>.
\<close>

definition get_column :: "string \<Rightarrow> DataFrame \<Rightarrow> cell list" where
  "get_column col df = map (\<lambda>r. r col) (rows df)"


text \<open>
  \<^verbatim>\<open>df.rename(columns=...)\<close>: every column keeps its cells under its new name. When two columns
  get the same name the model reads the first of them; the code below raises before it reads
  such a column.
\<close>

definition rename_columns :: "(string \<Rightarrow> string) \<Rightarrow> DataFrame \<Rightarrow> DataFrame" where
  "rename_columns f df =
     \<lparr>columns = map f (columns df),
      rows = map (\<lambda>r c'. case find (\<lambda>c. f c = c') (columns df) of
                           Some c \<Rightarrow> r c | None \<Rightarrow> Null) (rows df)\<rparr>"

text \<open>
  \<^verbatim>\<open>isna\<close>; \<^verbatim>\<open>pd.to_numeric(..., errors='coerce')\<close>, whose parser of numerals is the parameter
  \<open>to_float\<close> (\<open>None\<close>: not a numeral, which becomes null); the non-null numbers of a column
  and their mean; and the product of a cell with a number (null stays null).
\<close>

definition isna :: "cell \<Rightarrow> bool" where
  "isna c \<longleftrightarrow> c = Null"

definition to_numeric :: "(string \<Rightarrow> real option) \<Rightarrow> cell \<Rightarrow> cell" where
  "to_numeric to_float c =
     (case c of
        Null \<Rightarrow> Null
      | Num x \<Rightarrow> Num x
      | Str s \<Rightarrow> (case to_float s of None \<Rightarrow> Null | Some x \<Rightarrow> Num x))"



definition cell_times :: "real \<Rightarrow> cell \<Rightarrow> cell" where
  "cell_times k c = (case c of Num x \<Rightarrow> Num (x * k) | _ \<Rightarrow> c)"

section \<open>Quality auditor: data freshness\<close>

text \<open>
  \<^verbatim>\<open>DataQualityValidator.validate_data_freshness\<close> (data_quality_validator.py, lines 85-103)
  reads \<^verbatim>\<open>MAX(trade_date)\<close> from the history table, parses it with
  \<^verbatim>\<open>datetime.strptime(latest_date, '%Y-%m-%d')\<close> and scores the number of whole days between that
  midnight and \<^verbatim>\<open>datetime.now()\<close>.

  A date is modelled by its day ordinal (an \<open>int\<close>). The parser is a parameter
  \<open>strptime\<close>: \<open>None\<close> is the \<^verbatim>\<open>ValueError\<close> of a string that is not in the format. Since the
  parsed date is a midnight, \<^verbatim>\<open>(now - date).days\<close> is the difference of the two day ordinals,
  whatever the time of day of \<^verbatim>\<open>now\<close>; \<open>today\<close> is the day ordinal of \<^verbatim>\<open>datetime.now()\<close>.
  The database read is the parameter \<open>db_max\<close>: \<open>None\<close> when the read raises, \<open>Some None\<close>
  when the table is empty (SQL \<^verbatim>\<open>NULL\<close>), \<open>Some (Some s)\<close> otherwise. Scores are Python floats,
  modelled as reals.
\<close>

record freshness_results =
  latest_date :: "string option"
  days_since_update :: int
  freshness_score :: real

text \<open>Lines 94-97: the \<^verbatim>\<open>if/elif/else\<close> chain that turns the day count into a score.\<close>

definition freshness_score_of :: "int \<Rightarrow> real" where
  "freshness_score_of d =
     (if d \<le> 1 then 100
      else if d \<le> 3 then 90
      else if d \<le> 7 then 80
      else max 0 (80 - real_of_int (d - 7)))"

definition validate_data_freshness ::
  "(string \<Rightarrow> int option) \<Rightarrow> int \<Rightarrow> string option option \<Rightarrow> freshness_results" where
  "validate_data_freshness strptime today db_max =
     (let results = \<lparr>latest_date = None, days_since_update = 0, freshness_score = 0\<rparr> in
      case db_max of
        None \<Rightarrow> results
      | Some latest \<Rightarrow>
          (let results1 = results\<lparr>latest_date := latest\<rparr> in
           case latest of
             None \<Rightarrow> results1
           | Some s \<Rightarrow>
               if s = [] then results1
               else (case strptime s of
                       None \<Rightarrow> results1
                     | Some d \<Rightarrow>
                         (let days = today - d in
                          results1\<lparr>days_since_update := days,
                                   freshness_score := freshness_score_of days\<rparr>))))"

section \<open>Source registry\<close>

text \<open>
  data_source_manager.py. \<^verbatim>\<open>DataSourceStatus\<close> is the enum, \<^verbatim>\<open>DataSourceConfig\<close> the dataclass.
  \<^verbatim>\<open>last_success\<close> is a timestamp (\<^verbatim>\<open>datetime.now()\<close>), modelled as a number handed in by the
  caller. The registry \<^verbatim>\<open>self.sources\<close> is a dict, which keeps insertion order: an association
  list whose keys are the source ids. The Chinese display names and messages are written as
  their UTF-8 bytes.
\<close>

datatype DataSourceStatus = ACTIVE | INACTIVE | ERROR | MAINTENANCE

record DataSourceConfig =
  name :: string
  priority :: int
  status :: DataSourceStatus
  request_delay :: real
  max_retries :: int
  timeout :: int
  last_success :: "nat option"
  last_error :: "string option"
  error_count :: int

type_synonym sources = "(string \<times> DataSourceConfig) list"

text \<open>The dataclass constructor with its three defaulted fields.\<close>

definition new_config :: "string \<Rightarrow> int \<Rightarrow> DataSourceStatus \<Rightarrow> real \<Rightarrow> int \<Rightarrow> int \<Rightarrow> DataSourceConfig" where
  "new_config n p s d m t =
     \<lparr>name = n, priority = p, status = s, request_delay = d, max_retries = m, timeout = t,
      last_success = None, last_error = None, error_count = 0\<rparr>"

text \<open>\<^verbatim>\<open>_initialize_sources\<close>, lines 62-97.\<close>

definition initialize_sources :: sources where
  "initialize_sources =
     [(''jsl'', new_config [CHR 0xE9, CHR 0x9B, CHR 0x86, CHR 0xE6, CHR 0x80, CHR 0x9D, CHR 0xE5, CHR 0xBD, CHR 0x95]
          1 ACTIVE (3/10) 3 10),
      (''eastmoney'', new_config [CHR 0xE4, CHR 0xB8, CHR 0x9C, CHR 0xE6, CHR 0x96, CHR 0xB9, CHR 0xE8, CHR 0xB4, CHR 0xA2, CHR 0xE5, CHR 0xAF, CHR 0x8C]
          2 ACTIVE (5/10) 3 15),
      (''sina'', new_config [CHR 0xE6, CHR 0x96, CHR 0xB0, CHR 0xE6, CHR 0xB5, CHR 0xAA, CHR 0xE8, CHR 0xB4, CHR 0xA2, CHR 0xE7, CHR 0xBB, CHR 0x8F]
          3 ACTIVE (2/10) 3 10),
      (''tencent'', new_config [CHR 0xE8, CHR 0x85, CHR 0xBE, CHR 0xE8, CHR 0xAE, CHR 0xAF, CHR 0xE8, CHR 0xB4, CHR 0xA2, CHR 0xE7, CHR 0xBB, CHR 0x8F]
          4 ACTIVE (4/10) 3 10)]"

text \<open>
  \<^verbatim>\<open>get_source_by_priority\<close>, lines 99-105: the active sources, sorted by priority. Python's
  \<^verbatim>\<open>sorted\<close> is stable, and so is \<open>sort_key\<close>.
\<close>

definition get_source_by_priority :: "sources \<Rightarrow> (string \<times> DataSourceConfig) list" where
  "get_source_by_priority srcs =
     sort_key (\<lambda>x. priority (snd x)) (filter (\<lambda>x. status (snd x) = ACTIVE) srcs)"

text \<open>
  \<^verbatim>\<open>update_source_status\<close>, lines 107-121. \<open>record_status\<close> is what it does to the one config
  object; an unknown source id changes nothing.
\<close>

definition record_status :: "nat \<Rightarrow> DataSourceStatus \<Rightarrow> string option \<Rightarrow> DataSourceConfig \<Rightarrow> DataSourceConfig" where
  "record_status now st error_msg config =
     (let config1 = config\<lparr>status := st\<rparr> in
      if st = ACTIVE
      then config1\<lparr>last_success := Some now, error_count := 0, last_error := None\<rparr>
      else config1\<lparr>error_count := error_count config1 + 1, last_error := error_msg\<rparr>)"

definition update_source_status ::
  "nat \<Rightarrow> string \<Rightarrow> DataSourceStatus \<Rightarrow> string option \<Rightarrow> sources \<Rightarrow> sources" where
  "update_source_status now source_id st error_msg srcs =
     map (\<lambda>(sid, config). if sid = source_id then (sid, record_status now st error_msg config)
                           else (sid, config)) srcs"

text \<open>
  \<^verbatim>\<open>get_bond_list_with_fallback\<close>, lines 123-153. The two provider calls
  (\<^verbatim>\<open>_get_bond_list_from_jsl\<close>, \<^verbatim>\<open>_get_bond_list_from_eastmoney\<close>) reach the network: they are
  the parameter \<open>fetch\<close>, which for a source id gives the cleaned table the call returns or the
  text of the exception it raises. The function returns the table, the registry as it leaves
  it, and the trace of what it did: the providers it queried and the pauses it made
  (\<^verbatim>\<open>time.sleep(config.request_delay)\<close>), in order.

  In the source \<^verbatim>\<open>config\<close> is the object stored in \<^verbatim>\<open>self.sources\<close>, so the test
  \<^verbatim>\<open>config.error_count >= config.max_retries\<close> of line 146 reads the counter that
  \<^verbatim>\<open>update_source_status\<close> has just incremented: \<open>current_config\<close> reads it from the updated
  registry. \<open>fallback_step\<close> is the body of the loop for one source (\<open>None\<close>: go on with the next
  source), \<open>fallback_loop\<close> the loop over the list that \<^verbatim>\<open>get_source_by_priority\<close> returned
  before the first iteration.
\<close>

datatype fetch_outcome = Fetched DataFrame | FetchRaised string

datatype event = Query string | Sleep real

definition msg_empty_data :: string where
  "msg_empty_data = [CHR 0xE8, CHR 0xBF, CHR 0x94, CHR 0xE5, CHR 0x9B, CHR 0x9E, CHR 0xE7, CHR 0xA9, CHR 0xBA, CHR 0xE6, CHR 0x95, CHR 0xB0, CHR 0xE6, CHR 0x8D, CHR 0xAE]"

definition msg_too_many_errors :: string where
  "msg_too_many_errors = [CHR 0xE9, CHR 0x94, CHR 0x99, CHR 0xE8, CHR 0xAF, CHR 0xAF, CHR 0xE6, CHR 0xAC, CHR 0xA1, CHR 0xE6, CHR 0x95, CHR 0xB0, CHR 0xE8, CHR 0xBF, CHR 0x87, CHR 0xE5, CHR 0xA4, CHR 0x9A]"

definition current_config :: "sources \<Rightarrow> string \<Rightarrow> DataSourceConfig \<Rightarrow> DataSourceConfig" where
  "current_config srcs source_id config =
     (case map_of srcs source_id of Some c \<Rightarrow> c | None \<Rightarrow> config)"

definition record_exception :: "nat \<Rightarrow> string \<Rightarrow> DataSourceConfig \<Rightarrow> string \<Rightarrow> sources \<Rightarrow> sources" where
  "record_exception now source_id config error_msg srcs =
     (let srcs1 = update_source_status now source_id ERROR (Some error_msg) srcs;
          config1 = current_config srcs1 source_id config
      in if error_count config1 \<ge> max_retries config1
         then update_source_status now source_id INACTIVE (Some msg_too_many_errors) srcs1
         else srcs1)"

definition fallback_step ::
  "(string \<Rightarrow> fetch_outcome) \<Rightarrow> nat \<Rightarrow> string \<Rightarrow> DataSourceConfig \<Rightarrow> sources
     \<Rightarrow> DataFrame option \<times> sources \<times> event list" where
  "fallback_step fetch now source_id config srcs =
     (if source_id = ''jsl'' \<or> source_id = ''eastmoney'' then
        (case fetch source_id of
           Fetched result \<Rightarrow>
             if \<not> df_empty result
             then (Some result, update_source_status now source_id ACTIVE None srcs,
                   [Query source_id])
             else (None, update_source_status now source_id ERROR (Some msg_empty_data) srcs,
                   [Query source_id, Sleep (request_delay config)])
         | FetchRaised error_msg \<Rightarrow>
             (None, record_exception now source_id config error_msg srcs,
              [Query source_id, Sleep (request_delay config)]))
      else (None, srcs, []))"

fun fallback_loop ::
  "(string \<Rightarrow> fetch_outcome) \<Rightarrow> nat \<Rightarrow> (string \<times> DataSourceConfig) list \<Rightarrow> sources
     \<Rightarrow> DataFrame \<times> sources \<times> event list" where
  "fallback_loop fetch now [] srcs = (pd_DataFrame, srcs, [])"
| "fallback_loop fetch now ((source_id, config) # rest) srcs =
     (case fallback_step fetch now source_id config srcs of
        (Some result, srcs', evs) \<Rightarrow> (result, srcs', evs)
      | (None, srcs', evs) \<Rightarrow>
          (case fallback_loop fetch now rest srcs' of
             (result, srcs'', evs') \<Rightarrow> (result, srcs'', evs @ evs')))"

definition get_bond_list_with_fallback ::
  "(string \<Rightarrow> fetch_outcome) \<Rightarrow> nat \<Rightarrow> sources \<Rightarrow> DataFrame \<times> sources \<times> event list" where
  "get_bond_list_with_fallback fetch now srcs =
     fallback_loop fetch now (get_source_by_priority srcs) srcs"

text \<open>The providers queried, read off a trace.\<close>

definition queried :: "event list \<Rightarrow> string list" where
  "queried evs = concat (map (\<lambda>e. case e of Query s \<Rightarrow> [s] | Sleep d \<Rightarrow> []) evs)"

text \<open>
  The registry states that the fallback loop can reach from the registry as initialised: the
  source ids are distinct (the keys of a dict), and every source is active with counter 0 or
  in error with counter 1, with a retry budget of at least 2.
\<close>

definition within_budget :: "DataSourceConfig \<Rightarrow> bool" where
  "within_budget c \<longleftrightarrow>
     (status c = ACTIVE \<and> error_count c = 0 \<or> status c = ERROR \<and> error_count c = 1)
     \<and> 2 \<le> max_retries c"

definition never_exhausted :: "sources \<Rightarrow> bool" where
  "never_exhausted srcs \<longleftrightarrow> distinct (map fst srcs) \<and> list_all (\<lambda>x. within_budget (snd x)) srcs"

section \<open>Fetcher\<close>


















section \<open>Archiver: the dates to backfill\<close>

text \<open>
  master_data_collector.py. Dates are strings \<^verbatim>\<open>YYYY-MM-DD\<close> in the source, which it compares as
  strings; such strings are ordered as their days are, and a date is modelled by its day
  ordinal. \<open>strptime\<close> and \<open>today\<close> are as in the quality auditor; adding
  \<^verbatim>\<open>timedelta(days=1)\<close> is adding 1.
\<close>

text \<open>
  \<^verbatim>\<open>get_missing_dates\<close>, lines 132-151. The trading calendar is the \<^verbatim>\<open>trade_date\<close> column of the
  cached table, in its order; the empty list is the empty table that \<^verbatim>\<open>_get_trade_calendar\<close>
  caches when the provider fails. \<open>latest_date_in_db\<close> is \<^verbatim>\<open>MAX(trade_date)\<close> of the history
  table, \<open>None\<close> when the table is empty.
\<close>

definition get_missing_dates ::
  "(string \<Rightarrow> int option) \<Rightarrow> string option \<Rightarrow> int \<Rightarrow> int list \<Rightarrow> py_error + int list" where
  "get_missing_dates strptime latest_date_in_db today trade_calendar =
     (case latest_date_in_db of
        None \<Rightarrow> Inr []
      | Some latest \<Rightarrow>
          (case strptime latest of
             None \<Rightarrow> Inl ValueError
           | Some d \<Rightarrow>
               (let start_date = d + 1 in
                if trade_calendar = [] then Inr []
                else Inr (filter (\<lambda>t. start_date \<le> t \<and> t \<le> today) trade_calendar))))"

text \<open>
  \<^verbatim>\<open>_archive_latest_to_history_and_backfill\<close>, lines 153-172: the latest trading day
  (line 162, the maximum of the calendar dates up to today) and the list of dates the backfill
  loop of lines 178-185 iterates over. \<^verbatim>\<open>list.remove\<close> removes the first occurrence, as
  \<open>remove1\<close> does. The test \<^verbatim>\<open>if not latest_trade_date\<close> of line 164 never fires for a date:
  a date string is not empty, and the maximum of no dates is \<^verbatim>\<open>NaN\<close>, which Python takes for
  true; with no calendar date up to today the list of missing dates is empty anyway.
\<close>

definition latest_trade_date :: "int \<Rightarrow> int list \<Rightarrow> int option" where
  "latest_trade_date today trade_calendar =
     (case filter (\<lambda>t. t \<le> today) trade_calendar of
        [] \<Rightarrow> None
      | t # ts \<Rightarrow> Some (fold max ts t))"

definition backfill_gap_dates ::
  "(string \<Rightarrow> int option) \<Rightarrow> string option \<Rightarrow> int \<Rightarrow> int list \<Rightarrow> py_error + int list" where
  "backfill_gap_dates strptime latest_date_in_db today trade_calendar =
     (if trade_calendar = [] then Inr []
      else
        (case get_missing_dates strptime latest_date_in_db today trade_calendar of
           Inl err \<Rightarrow> Inl err
         | Inr missing_dates \<Rightarrow>
             (case latest_trade_date today trade_calendar of
                None \<Rightarrow> Inr missing_dates
              | Some l \<Rightarrow>
                  if l \<in> set missing_dates then Inr (remove1 l missing_dates)
                  else Inr missing_dates)))"

section \<open>Field normaliser: bond history\<close>









text \<open>
  Two tables for the examples: volumes in lots under the Chinese column names, with mean
  50,000, and volumes in shares with mean 5,000,000. \<open>mk_row\<close> builds a row from its cells.
\<close>

definition mk_row :: "(string \<times> cell) list \<Rightarrow> row" where
  "mk_row kvs = (\<lambda>c. case map_of kvs c of Some v \<Rightarrow> v | None \<Rightarrow> Null)"




section \<open>Merger: derived metrics\<close>

text \<open>
  \<^verbatim>\<open>_calculate_derived_metrics\<close>, enhanced_history_pipeline.py, lines 217-224.

  \<^verbatim>\<open>df[col] = values\<close>: the column is replaced, or added at the end when it is new.
\<close>

definition set_column :: "string \<Rightarrow> cell list \<Rightarrow> DataFrame \<Rightarrow> DataFrame" where
  "set_column col vs df =
     \<lparr>columns = (if col \<in> set (columns df) then columns df else columns df @ [col]),
      rows = map (\<lambda>(r, v). r(col := v)) (zip (rows df) vs)\<rparr>"

text \<open>
  \<^verbatim>\<open>df.sort_values(by=...)\<close>: ascending, nulls last, strings in code point order. A missing
  column is a \<^verbatim>\<open>KeyError\<close>, a column name that is there twice a \<^verbatim>\<open>ValueError\<close>, and a column
  that holds both numbers and strings cannot be compared (\<^verbatim>\<open>TypeError\<close>). The sort of the model
  is an insertion sort, which is stable; pandas' default algorithm need not keep the order of
  rows with equal keys, and nothing proved below depends on that order.
\<close>

fun cell_le :: "cell \<Rightarrow> cell \<Rightarrow> bool" where
  "cell_le c Null = True"
| "cell_le Null c = False"
| "cell_le (Num x) (Num y) = (x \<le> y)"
| "cell_le (Str a) (Str b) = (a \<le> b)"
| "cell_le (Num x) (Str b) = True"
| "cell_le (Str a) (Num y) = False"

fun insort_row :: "string \<Rightarrow> row \<Rightarrow> row list \<Rightarrow> row list" where
  "insort_row by r [] = [r]"
| "insort_row by r (x # xs) =
     (if cell_le (r by) (x by) then r # x # xs else x # insort_row by r xs)"

definition sort_rows :: "string \<Rightarrow> row list \<Rightarrow> row list" where
  "sort_rows by rs = foldr (insort_row by) rs []"

definition is_num :: "cell \<Rightarrow> bool" where
  "is_num c = (case c of Num x \<Rightarrow> True | _ \<Rightarrow> False)"

definition is_str :: "cell \<Rightarrow> bool" where
  "is_str c = (case c of Str s \<Rightarrow> True | _ \<Rightarrow> False)"

definition sort_values :: "string \<Rightarrow> DataFrame \<Rightarrow> py_error + DataFrame" where
  "sort_values by df =
     (if by \<notin> set (columns df) then Inl KeyError
      else if 1 < count_list (columns df) by then Inl ValueError
      else if list_ex is_num (get_column by df) \<and> list_ex is_str (get_column by df)
      then Inl TypeError
      else Inr (df\<lparr>rows := sort_rows by (rows df)\<rparr>))"

text \<open>
  \<^verbatim>\<open>Series.pct_change()\<close> is \<^verbatim>\<open>data / data.shift(1) - 1\<close>, where \<^verbatim>\<open>data\<close> is the column with its
  nulls filled forward (\<^verbatim>\<open>fill_method='pad'\<close>, the default of pandas 1 and 2) or the column
  itself (pandas 3): the choice is the parameter \<open>pad\<close>. \<open>pct prev cur\<close> is one quotient: null
  when either cell is null or both are zero, a \<^verbatim>\<open>TypeError\<close> when a string meets a non-null cell.
\<close>

fun ffill :: "cell \<Rightarrow> cell list \<Rightarrow> cell list" where
  "ffill seen [] = []"
| "ffill seen (c # cs) = (if c = Null then seen # ffill seen cs else c # ffill c cs)"

fun pct :: "cell \<Rightarrow> cell \<Rightarrow> py_error + cell" where
  "pct Null c = Inr Null"
| "pct p Null = Inr Null"
| "pct (Num a) (Num b) =
     (if a = 0 then (if b = 0 then Inr Null else Inl NonFiniteFloat)
      else Inr (Num (b / a - 1)))"
| "pct p c = Inl TypeError"

fun pct_from :: "cell \<Rightarrow> cell list \<Rightarrow> py_error + cell list" where
  "pct_from prev [] = Inr []"
| "pct_from prev (c # cs) =
     (case pct prev c of
        Inl err \<Rightarrow> Inl err
      | Inr v \<Rightarrow> (case pct_from c cs of Inl err \<Rightarrow> Inl err | Inr vs \<Rightarrow> Inr (v # vs)))"

definition pct_change :: "bool \<Rightarrow> cell list \<Rightarrow> py_error + cell list" where
  "pct_change pad cs = pct_from Null (if pad then ffill Null cs else cs)"

text \<open>
  The sum of two columns, cell by cell: null when either cell is null; two strings are
  concatenated, a string and a number raise \<^verbatim>\<open>TypeError\<close>.
\<close>

fun cell_add :: "cell \<Rightarrow> cell \<Rightarrow> py_error + cell" where
  "cell_add Null c = Inr Null"
| "cell_add c Null = Inr Null"
| "cell_add (Num a) (Num b) = Inr (Num (a + b))"
| "cell_add (Str a) (Str b) = Inr (Str (a @ b))"
| "cell_add c d = Inl TypeError"

fun add_columns :: "cell list \<Rightarrow> cell list \<Rightarrow> py_error + cell list" where
  "add_columns (a # as) (b # bs) =
     (case cell_add a b of
        Inl err \<Rightarrow> Inl err
      | Inr v \<Rightarrow> (case add_columns as bs of Inl err \<Rightarrow> Inl err | Inr vs \<Rightarrow> Inr (v # vs)))"
| "add_columns as bs = Inr []"

text \<open>
  Lines 220-221 and 222-223. A column name that is there twice makes \<^verbatim>\<open>df['price']\<close> a table,
  and the assignment of a table to one column raises \<^verbatim>\<open>ValueError\<close>.
\<close>

definition add_price_chg_pct :: "bool \<Rightarrow> DataFrame \<Rightarrow> py_error + DataFrame" where
  "add_price_chg_pct pad df =
     (if ''price'' \<in> set (columns df) then
        if 1 < count_list (columns df) ''price'' then Inl ValueError
        else (case pct_change pad (get_column ''price'' df) of
                Inl err \<Rightarrow> Inl err
              | Inr chg \<Rightarrow> Inr (set_column ''price_chg_pct'' (map (cell_times 100) chg) df))
      else Inr df)"

definition add_double_low :: "DataFrame \<Rightarrow> py_error + DataFrame" where
  "add_double_low df =
     (if ''price'' \<in> set (columns df) \<and> ''premium_rate'' \<in> set (columns df) then
        if 1 < count_list (columns df) ''price'' \<or> 1 < count_list (columns df) ''premium_rate''
        then Inl ValueError
        else (case add_columns (get_column ''price'' df) (get_column ''premium_rate'' df) of
                Inl err \<Rightarrow> Inl err
              | Inr dl \<Rightarrow> Inr (set_column ''double_low'' dl df))
      else Inr df)"

definition calculate_derived_metrics :: "bool \<Rightarrow> DataFrame \<Rightarrow> py_error + DataFrame" where
  "calculate_derived_metrics pad df =
     (if df_empty df then Inr df
      else
        (case sort_values ''trade_date'' df of
           Inl err \<Rightarrow> Inl err
         | Inr df1 \<Rightarrow>
             (case add_price_chg_pct pad df1 of
                Inl err \<Rightarrow> Inl err
              | Inr df2 \<Rightarrow> add_double_low df2)))"


section \<open>Merger: joining the tables\<close>

text \<open>
  \<^verbatim>\<open>pd.merge(left, right, on=key, how='left', suffixes=...)\<close>. A column of one table whose name
  is also in the other (the key apart) gets that table's suffix. \<open>left_names\<close> and
  \<open>right_names\<close> pair every column with its name in the result; the key column of the right
  table is not repeated. The rows of the left table keep their order; each is joined with
  every row of the right table that has its key (a null key matches a null key, as in pandas),
  in the right table's order, or once with nulls when there is none. \<open>join_row\<close> builds the
  joined row from the cells of the two rows under their new names.

  A missing key column is a \<^verbatim>\<open>KeyError\<close>; overlapping columns with two empty suffixes are a
  \<^verbatim>\<open>ValueError\<close>. The model raises \<^verbatim>\<open>MergeError\<close> whenever the result would carry a column name
  twice (pandas 2 raises it when the suffixes cause the repetition, and otherwise fails at the
  next access of the repeated column): nothing is proved about such tables.
\<close>

definition join_row :: "(string \<times> string) list \<Rightarrow> row \<Rightarrow> (string \<times> string) list \<Rightarrow> row \<Rightarrow> row" where
  "join_row lnames l rnames r =
     foldr (\<lambda>(c, c') acc. acc(c' := l c)) lnames
       (foldr (\<lambda>(c, c') acc. acc(c' := r c)) rnames (\<lambda>c. Null))"

definition overlaps :: "string \<Rightarrow> DataFrame \<Rightarrow> DataFrame \<Rightarrow> string \<Rightarrow> bool" where
  "overlaps on left right c \<longleftrightarrow> c \<noteq> on \<and> c \<in> set (columns left) \<and> c \<in> set (columns right)"

definition left_names ::
  "string \<Rightarrow> string \<times> string \<Rightarrow> DataFrame \<Rightarrow> DataFrame \<Rightarrow> (string \<times> string) list" where
  "left_names on suffixes left right =
     map (\<lambda>c. (c, if overlaps on left right c then c @ fst suffixes else c)) (columns left)"

definition right_names ::
  "string \<Rightarrow> string \<times> string \<Rightarrow> DataFrame \<Rightarrow> DataFrame \<Rightarrow> (string \<times> string) list" where
  "right_names on suffixes left right =
     map (\<lambda>c. (c, if overlaps on left right c then c @ snd suffixes else c))
       (removeAll on (columns right))"

definition join_rows ::
  "string \<Rightarrow> (string \<times> string) list \<Rightarrow> (string \<times> string) list \<Rightarrow> row list \<Rightarrow> row list
     \<Rightarrow> row list" where
  "join_rows on lnames rnames lrows rrows =
     concat (map (\<lambda>l. case filter (\<lambda>r. r on = l on) rrows of
                         [] \<Rightarrow> [join_row lnames l rnames (\<lambda>c. Null)]
                       | ms \<Rightarrow> map (join_row lnames l rnames) ms) lrows)"

definition merge_left ::
  "string \<Rightarrow> string \<times> string \<Rightarrow> DataFrame \<Rightarrow> DataFrame \<Rightarrow> py_error + DataFrame" where
  "merge_left on suffixes left right =
     (if on \<notin> set (columns left) \<or> on \<notin> set (columns right) then Inl KeyError
      else if list_ex (overlaps on left right) (columns left)
              \<and> fst suffixes = [] \<and> snd suffixes = []
      then Inl ValueError
      else if \<not> distinct (map snd (left_names on suffixes left right)
                           @ map snd (right_names on suffixes left right))
      then Inl MergeError
      else Inr \<lparr>columns = map snd (left_names on suffixes left right)
                          @ map snd (right_names on suffixes left right),
                rows = join_rows on (left_names on suffixes left right)
                         (right_names on suffixes left right) (rows left) (rows right)\<rparr>)"

text \<open>
  \<^verbatim>\<open>df[col] = df[col].fillna(df[other])\<close>, \<^verbatim>\<open>df.drop(columns=[col])\<close> and the assignment of
  one value to a whole column, \<^verbatim>\<open>df[key] = value\<close>.
\<close>

definition fillna_from :: "string \<Rightarrow> string \<Rightarrow> DataFrame \<Rightarrow> DataFrame" where
  "fillna_from col other df =
     df\<lparr>rows := map (\<lambda>r. r(col := if isna (r col) then r other else r col)) (rows df)\<rparr>"

definition drop_column :: "string \<Rightarrow> DataFrame \<Rightarrow> DataFrame" where
  "drop_column col df =
     \<lparr>columns = removeAll col (columns df), rows = map (\<lambda>r. r(col := Null)) (rows df)\<rparr>"

definition assign_scalar :: "string \<Rightarrow> cell \<Rightarrow> DataFrame \<Rightarrow> DataFrame" where
  "assign_scalar col v df =
     \<lparr>columns = (if col \<in> set (columns df) then columns df else columns df @ [col]),
      rows = map (\<lambda>r. r(col := v)) (rows df)\<rparr>"

text \<open>
  \<^verbatim>\<open>_merge_bond_data\<close>, lines 201-215. \<open>merge_valuation\<close> is the branch of a non-empty primary
  table (lines 204-209); \<open>bond_info\<close> is the dict of the bond's identity fields, in its order;
  the second merge has pandas' default suffixes. The flag \<open>pad\<close> is passed on to
  \<open>calculate_derived_metrics\<close>.
\<close>

definition merge_valuation :: "DataFrame \<Rightarrow> DataFrame \<Rightarrow> py_error + DataFrame" where
  "merge_valuation hist_df value_df =
     (if \<not> df_empty value_df then
        (case merge_left ''trade_date'' ([], ''_val'') hist_df value_df of
           Inl err \<Rightarrow> Inl err
         | Inr merged_df \<Rightarrow>
             if ''price'' \<in> set (columns merged_df) \<and> ''price_val'' \<in> set (columns merged_df)
             then Inr (drop_column ''price_val'' (fillna_from ''price'' ''price_val'' merged_df))
             else Inr merged_df)
      else Inr hist_df)"

definition merge_bond_data ::
  "bool \<Rightarrow> DataFrame \<Rightarrow> DataFrame \<Rightarrow> DataFrame \<Rightarrow> (string \<times> cell) list \<Rightarrow> py_error + DataFrame" where
  "merge_bond_data pad hist_df value_df stock_df bond_info =
     (if df_empty hist_df \<and> df_empty value_df then Inr pd_DataFrame
      else
        (case (if \<not> df_empty hist_df then merge_valuation hist_df value_df
               else Inr (rename_columns (\<lambda>c. if c = ''price_val'' then ''price'' else c) value_df)) of
           Inl err \<Rightarrow> Inl err
         | Inr merged_df \<Rightarrow>
             (let with_info = foldl (\<lambda>df (key, v). assign_scalar key v df) merged_df bond_info in
              case (if \<not> df_empty stock_df
                    then merge_left ''trade_date'' (''_x'', ''_y'') with_info stock_df
                    else Inr with_info) of
                Inl err \<Rightarrow> Inl err
              | Inr df \<Rightarrow> calculate_derived_metrics pad df)))"

text \<open>
  The tables of the example: primary prices 10, null, 12 and valuation prices 9, 11, 13 on the
  same three dates.
\<close>

definition primary_prices :: DataFrame where
  "primary_prices = \<lparr>columns = [''trade_date'', ''price'', ''volume''],
     rows = [mk_row [(''trade_date'', Str ''2024-01-02''), (''price'', Num 10), (''volume'', Num 500)],
             mk_row [(''trade_date'', Str ''2024-01-03''), (''price'', Null), (''volume'', Num 600)],
             mk_row [(''trade_date'', Str ''2024-01-04''), (''price'', Num 12), (''volume'', Num 700)]]\<rparr>"

definition valuation_prices :: DataFrame where
  "valuation_prices = \<lparr>columns = [''trade_date'', ''price_val'', ''premium_rate''],
     rows = [mk_row [(''trade_date'', Str ''2024-01-02''), (''price_val'', Num 9), (''premium_rate'', Num 30)],
             mk_row [(''trade_date'', Str ''2024-01-03''), (''price_val'', Num 11), (''premium_rate'', Num 31)],
             mk_row [(''trade_date'', Str ''2024-01-04''), (''price_val'', Num 13), (''premium_rate'', Num 32)]]\<rparr>"

section \<open>Persister\<close>

text \<open>
  \<^verbatim>\<open>save_to_database\<close>, enhanced_history_pipeline.py, lines 226-247. The store maps a table
  name to its table: the column names of its schema, the columns of its primary key and its
  rows. A stored row is the record that was inserted; a column the record does not give is
  null (the defaults of the schema's two timestamp columns are outside the model).
\<close>

record db_table =
  tcolumns :: "string list"
  pkey :: "string list"
  trows :: "row list"




datatype db_error = OperationalError | IntegrityError








section \<open>Archiver: backfill of the static fields\<close>

text \<open>
  \<^verbatim>\<open>_archive_latest_to_history_and_backfill\<close>, lines 213-225: the backfill of the slowly
  changing fields, from the snapshot table \<^verbatim>\<open>latest_df\<close> into the history table. Selecting the
  \<^verbatim>\<open>bond_code\<close> column of a snapshot that has none is a \<^verbatim>\<open>KeyError\<close>; an update that names a
  column the history table does not have is rejected by the database. Either exception leaves
  the \<^verbatim>\<open>try\<close> block, and the transaction is rolled back.
\<close>

datatype archive_error = MissingColumn py_error | Rejected db_error

definition backfill_fields :: "string list" where
  "backfill_fields = [''bond_rating'', ''put_trigger_price'', ''force_redeem_trigger_price'',
                      ''conv_price'', ''maturity_date'', ''stock_pb'']"

text \<open>
  The statement \<^verbatim>\<open>UPDATE cb_daily_history SET field = :value WHERE bond_code = :bond_code AND
  field IS NULL\<close>. In SQL a null bond code equals nothing.
\<close>

definition update_where_null :: "string \<Rightarrow> cell \<Rightarrow> cell \<Rightarrow> row list \<Rightarrow> row list" where
  "update_where_null field value_to_fill bond_code stored =
     map (\<lambda>h. if bond_code \<noteq> Null \<and> h ''bond_code'' = bond_code \<and> h field = Null
               then h(field := value_to_fill) else h) stored"

text \<open>
  The inner loop over the rows of the snapshot (lines 220-224) for one field, the outer loop
  over the fields (lines 217-218), and the whole step.
\<close>

fun backfill_field :: "string \<Rightarrow> row list \<Rightarrow> db_table \<Rightarrow> archive_error + db_table" where
  "backfill_field field [] t = Inr t"
| "backfill_field field (row # rest) t =
     (if \<not> isna (row field) then
        if field \<notin> set (tcolumns t) \<or> ''bond_code'' \<notin> set (tcolumns t)
        then Inl (Rejected OperationalError)
        else backfill_field field rest
               (t\<lparr>trows := update_where_null field (row field) (row ''bond_code'') (trows t)\<rparr>)
      else backfill_field field rest t)"

fun backfill_loop :: "string list \<Rightarrow> DataFrame \<Rightarrow> db_table \<Rightarrow> archive_error + db_table" where
  "backfill_loop [] latest_df t = Inr t"
| "backfill_loop (field # rest) latest_df t =
     (if field \<notin> set (columns latest_df) then backfill_loop rest latest_df t
      else (case backfill_field field (rows latest_df) t of
              Inl err \<Rightarrow> Inl err
            | Inr t' \<Rightarrow> backfill_loop rest latest_df t'))"

definition backfill_static_fields :: "DataFrame \<Rightarrow> db_table \<Rightarrow> archive_error + db_table" where
  "backfill_static_fields latest_df t =
     (if ''bond_code'' \<notin> set (columns latest_df) then Inl (MissingColumn KeyError)
      else backfill_loop backfill_fields latest_df t)"

text \<open>
  Two relations between a historical row \<open>h\<close> before the step and the same row \<open>h'\<close> after it,
  used to state what the step does. \<open>preserved\<close>: the bond code is kept, a cell that was not
  null is kept, and a cell that differs is a backfill field that took the non-null value of a
  snapshot row of the same bond. \<open>fills\<close>: a field that was not null is not null, and a field
  for which the snapshot has a non-null value of the same bond is not null.
\<close>

definition preserved :: "row set \<Rightarrow> row \<Rightarrow> row \<Rightarrow> bool" where
  "preserved snapshot h h' \<longleftrightarrow>
     h' ''bond_code'' = h ''bond_code''
     \<and> (\<forall>c. (h c \<noteq> Null \<longrightarrow> h' c = h c)
            \<and> (h' c \<noteq> h c \<longrightarrow> c \<in> set backfill_fields
                  \<and> (\<exists>s \<in> snapshot. s ''bond_code'' = h ''bond_code'' \<and> s c \<noteq> Null \<and> h' c = s c)))"

definition fills :: "string \<Rightarrow> row set \<Rightarrow> row \<Rightarrow> row \<Rightarrow> bool" where
  "fills field snapshot h h' \<longleftrightarrow>
     h' ''bond_code'' = h ''bond_code''
     \<and> (h field \<noteq> Null \<longrightarrow> h' field \<noteq> Null)
     \<and> ((\<exists>s \<in> snapshot. s ''bond_code'' = h ''bond_code'' \<and> s ''bond_code'' \<noteq> Null
                           \<and> s field \<noteq> Null) \<longrightarrow> h' field \<noteq> Null)"

text \<open>
  The example: a history with rating AA on the first day and no rating on the second, and a
  snapshot whose rating is AAA.
\<close>

definition rated_history :: db_table where
  "rated_history = \<lparr>tcolumns = [''trade_date'', ''bond_code'', ''bond_rating'', ''conv_price''],
     pkey = [''trade_date'', ''bond_code''],
     trows = [mk_row [(''trade_date'', Str ''2024-01-02''), (''bond_code'', Str ''113001''),
                      (''bond_rating'', Str ''AA''), (''conv_price'', Null)],
              mk_row [(''trade_date'', Str ''2024-01-03''), (''bond_code'', Str ''113001''),
                      (''bond_rating'', Null), (''conv_price'', Num 8)]]\<rparr>"

definition latest_snapshot :: DataFrame where
  "latest_snapshot = \<lparr>columns = [''bond_code'', ''bond_rating'', ''conv_price''],
     rows = [mk_row [(''bond_code'', Str ''113001''), (''bond_rating'', Str ''AAA''),
                     (''conv_price'', Num 9)]]\<rparr>"

section \<open>Properties of the quality auditor\<close>

lemma freshness_score_of_nonneg: "0 \<le> freshness_score_of d"
  by (simp add: freshness_score_of_def)

lemma validate_data_freshness_parsed:
  assumes "strptime s = Some d" and "s \<noteq> []"
  shows "validate_data_freshness strptime today (Some (Some s)) =
           \<lparr>latest_date = Some s, days_since_update = today - d,
            freshness_score = freshness_score_of (today - d)\<rparr>"
  using assms by (simp add: validate_data_freshness_def Let_def)

text \<open>
  Claim C7, as the specification states it, lists the score 30 for a table that is 50 days old.
  The code computes \<open>80 - (50 - 7) = 37\<close>: the list of example scores is not what the code yields.
\<close>

theorem freshness_examples_counterexample:
  "\<not> (freshness_score_of 0 = 100 \<and> freshness_score_of 5 = 80 \<and> freshness_score_of 10 = 77
       \<and> freshness_score_of 50 = 30 \<and> freshness_score_of 200 = 0)"
  by (simp add: freshness_score_of_def)

text \<open>
  Claim C7, amended: for every non-negative number of days since the latest stored date, the
  freshness score reported by \<open>validate_data_freshness\<close> is 100 up to one day, 90 up to three
  days, 80 up to seven days, and beyond seven days it is 80 minus one point per day past seven,
  never below 0 (so it is 0 from day 87 on); 0, 5, 10, 50 and 200 days give 100, 80, 77, 37
  and 0.
\<close>

theorem freshness_step_function:
  assumes "strptime s = Some d" and "s \<noteq> []" and "0 \<le> today - d"
  shows "days_since_update (validate_data_freshness strptime today (Some (Some s))) = today - d
    \<and> freshness_score (validate_data_freshness strptime today (Some (Some s)))
        = freshness_score_of (today - d)
    \<and> (today - d \<le> 1 \<longrightarrow> freshness_score_of (today - d) = 100)
    \<and> (1 < today - d \<and> today - d \<le> 3 \<longrightarrow> freshness_score_of (today - d) = 90)
    \<and> (3 < today - d \<and> today - d \<le> 7 \<longrightarrow> freshness_score_of (today - d) = 80)
    \<and> (7 < today - d \<and> today - d \<le> 87 \<longrightarrow>
          freshness_score_of (today - d) = 80 - real_of_int (today - d - 7))
    \<and> (87 \<le> today - d \<longrightarrow> freshness_score_of (today - d) = 0)
    \<and> freshness_score_of 0 = 100 \<and> freshness_score_of 5 = 80 \<and> freshness_score_of 10 = 77
    \<and> freshness_score_of 50 = 37 \<and> freshness_score_of 200 = 0"
  using assms
  by (simp add: validate_data_freshness_parsed freshness_score_of_def)

theorem freshness_step_function_witness:
  "freshness_score (validate_data_freshness (\<lambda>s. if s = ''2024-01-01'' then Some 0 else None) 10
      (Some (Some ''2024-01-01''))) = 77
   \<and> days_since_update (validate_data_freshness (\<lambda>s. if s = ''2024-01-01'' then Some 0 else None) 10
      (Some (Some ''2024-01-01''))) = 10"
  using freshness_step_function [of "\<lambda>s. if s = ''2024-01-01'' then Some 0 else None"
      "''2024-01-01''" 0 10]
  by (simp add: freshness_score_of_def)


section \<open>Properties of the source registry\<close>

lemma map_of_update_other:
  "sid \<noteq> source_id \<Longrightarrow> map_of (update_source_status now source_id st msg srcs) sid = map_of srcs sid"
  by (induction srcs) (auto simp: update_source_status_def)

lemma fallback_step_frame:
  assumes "sid \<noteq> ''jsl''" "sid \<noteq> ''eastmoney''"
  shows "map_of (fst (snd (fallback_step fetch now source_id config srcs))) sid = map_of srcs sid"
  using assms
  by (auto simp: fallback_step_def record_exception_def Let_def map_of_update_other
      split: fetch_outcome.splits)

lemma fallback_step_queries:
  "Query s \<in> set (snd (snd (fallback_step fetch now source_id config srcs)))
     \<Longrightarrow> s = source_id \<and> (s = ''jsl'' \<or> s = ''eastmoney'')"
  by (auto simp: fallback_step_def split: fetch_outcome.splits if_splits)

lemma fallback_loop_frame:
  assumes "sid \<noteq> ''jsl''" "sid \<noteq> ''eastmoney''"
  shows "map_of (fst (snd (fallback_loop fetch now todo srcs))) sid = map_of srcs sid"
  using assms
proof (induction todo arbitrary: srcs)
  case Nil
  then show ?case by simp
next
  case (Cons a todo)
  obtain source_id config where a: "a = (source_id, config)" by (cases a)
  obtain r srcs' evs where st: "fallback_step fetch now source_id config srcs = (r, srcs', evs)"
    by (cases "fallback_step fetch now source_id config srcs")
  have fr: "map_of srcs' sid = map_of srcs sid"
    using fallback_step_frame [OF Cons.prems, of fetch now source_id config srcs] st by simp
  show ?case
  proof (cases r)
    case None
    then show ?thesis using Cons.IH [OF Cons.prems, of srcs'] fr st a
      by (auto split: prod.splits)
  next
    case (Some res)
    then show ?thesis using fr st a by simp
  qed
qed

lemma fallback_loop_queries:
  "Query s \<in> set (snd (snd (fallback_loop fetch now todo srcs)))
     \<Longrightarrow> s \<in> fst ` set todo \<and> (s = ''jsl'' \<or> s = ''eastmoney'')"
proof (induction todo arbitrary: srcs)
  case Nil
  then show ?case by simp
next
  case (Cons a todo)
  obtain source_id config where a: "a = (source_id, config)" by (cases a)
  obtain r srcs' evs where st: "fallback_step fetch now source_id config srcs = (r, srcs', evs)"
    by (cases "fallback_step fetch now source_id config srcs")
  have q: "Query s \<in> set evs \<Longrightarrow> s = source_id \<and> (s = ''jsl'' \<or> s = ''eastmoney'')"
    using fallback_step_queries [of s fetch now source_id config srcs] st by auto
  show ?case
  proof (cases r)
    case None
    obtain res srcs'' evs' where lp: "fallback_loop fetch now todo srcs' = (res, srcs'', evs')"
      by (cases "fallback_loop fetch now todo srcs'")
    have "Query s \<in> set evs \<or> Query s \<in> set evs'"
      using Cons.prems a st None lp by auto
    then show ?thesis
      using q Cons.IH [of srcs'] lp a by auto
  next
    case (Some res)
    then show ?thesis using q st a Cons.prems by auto
  qed
qed


lemma set_queried: "s \<in> set (queried evs) \<longleftrightarrow> Query s \<in> set evs"
  by (induction evs) (auto simp: queried_def split: event.splits)

text \<open>
  Claim C10: whatever the registry holds and whatever the providers answer,
  \<open>get_bond_list_with_fallback\<close> queries no provider but \<^verbatim>\<open>jsl\<close> and \<^verbatim>\<open>eastmoney\<close>, and it leaves the
  registry entry of every other source as it was, in particular the entries (status, error
  counter, last error and all other fields) of \<^verbatim>\<open>sina\<close> and \<^verbatim>\<open>tencent\<close>; these two are registered
  active with priorities 3 and 4, so the loop does reach them when the first two sources fail.
\<close>

theorem fallback_skips_sina_tencent:
  "set (queried (snd (snd (get_bond_list_with_fallback fetch now srcs)))) \<subseteq> {''jsl'', ''eastmoney''}
   \<and> (\<forall>sid. sid \<noteq> ''jsl'' \<and> sid \<noteq> ''eastmoney'' \<longrightarrow>
         map_of (fst (snd (get_bond_list_with_fallback fetch now srcs))) sid = map_of srcs sid)
   \<and> map_of (fst (snd (get_bond_list_with_fallback fetch now srcs))) ''sina'' = map_of srcs ''sina''
   \<and> map_of (fst (snd (get_bond_list_with_fallback fetch now srcs))) ''tencent'' = map_of srcs ''tencent''
   \<and> map (\<lambda>x. (fst x, status (snd x), priority (snd x))) initialize_sources
       = [(''jsl'', ACTIVE, 1), (''eastmoney'', ACTIVE, 2), (''sina'', ACTIVE, 3), (''tencent'', ACTIVE, 4)]
   \<and> map fst (get_source_by_priority initialize_sources) = [''jsl'', ''eastmoney'', ''sina'', ''tencent'']"
proof -
  have q: "set (queried (snd (snd (get_bond_list_with_fallback fetch now srcs)))) \<subseteq> {''jsl'', ''eastmoney''}"
  proof
    fix s assume "s \<in> set (queried (snd (snd (get_bond_list_with_fallback fetch now srcs))))"
    then have "Query s \<in> set (snd (snd (fallback_loop fetch now (get_source_by_priority srcs) srcs)))"
      by (simp add: get_bond_list_with_fallback_def set_queried)
    from fallback_loop_queries [OF this] show "s \<in> {''jsl'', ''eastmoney''}" by simp
  qed
  have f: "\<forall>sid. sid \<noteq> ''jsl'' \<and> sid \<noteq> ''eastmoney'' \<longrightarrow>
         map_of (fst (snd (get_bond_list_with_fallback fetch now srcs))) sid = map_of srcs sid"
    by (simp add: get_bond_list_with_fallback_def fallback_loop_frame)
  have i: "map (\<lambda>x. (fst x, status (snd x), priority (snd x))) initialize_sources
       = [(''jsl'', ACTIVE, 1), (''eastmoney'', ACTIVE, 2), (''sina'', ACTIVE, 3), (''tencent'', ACTIVE, 4)]"
    by (simp add: initialize_sources_def new_config_def)
  have p: "map fst (get_source_by_priority initialize_sources) = [''jsl'', ''eastmoney'', ''sina'', ''tencent'']"
    by (simp add: get_source_by_priority_def initialize_sources_def new_config_def)
  from q f i p show ?thesis by simp
qed

theorem fallback_skips_sina_tencent_witness:
  "queried (snd (snd (get_bond_list_with_fallback (\<lambda>_. Fetched pd_DataFrame) 5 initialize_sources)))
      = [''jsl'', ''eastmoney'']
   \<and> map_of (fst (snd (get_bond_list_with_fallback (\<lambda>_. Fetched pd_DataFrame) 5 initialize_sources))) ''sina''
      = map_of initialize_sources ''sina''
   \<and> map_option (\<lambda>c. (status c, error_count c, last_error c)) (map_of initialize_sources ''sina'')
      = Some (ACTIVE, 0, None)"
  using fallback_skips_sina_tencent [of "\<lambda>_. Fetched pd_DataFrame" 5 initialize_sources]
  by (simp add: get_bond_list_with_fallback_def get_source_by_priority_def initialize_sources_def
      new_config_def fallback_step_def df_empty_def pd_DataFrame_def update_source_status_def
      record_status_def queried_def)


lemma map_of_update_same:
  "map_of (update_source_status now sid st msg srcs) sid
     = map_option (record_status now st msg) (map_of srcs sid)"
  by (induction srcs) (auto simp: update_source_status_def)

lemma listed_sources_are_active:
  "(sid, c) \<in> set (get_source_by_priority srcs) \<Longrightarrow> status c = ACTIVE \<and> (sid, c) \<in> set srcs"
  by (auto simp: get_source_by_priority_def)

lemma non_active_source_not_listed:
  assumes "distinct (map fst srcs)" and "map_of srcs sid = Some c" and "status c \<noteq> ACTIVE"
  shows "sid \<notin> fst ` set (get_source_by_priority srcs)"
proof
  assume "sid \<in> fst ` set (get_source_by_priority srcs)"
  then obtain c' where l: "(sid, c') \<in> set (get_source_by_priority srcs)" by auto
  then have "status c' = ACTIVE" and "(sid, c') \<in> set srcs"
    using listed_sources_are_active by blast+
  with assms(1) have "map_of srcs sid = Some c'" by simp
  with assms(2,3) \<open>status c' = ACTIVE\<close> show False by simp
qed

lemma record_exception_deactivates:
  assumes "map_of srcs sid = Some c" and "max_retries c \<le> error_count c + 1"
  shows "map_option (\<lambda>c. (status c, error_count c)) (map_of (record_exception now sid config msg srcs) sid)
           = Some (INACTIVE, error_count c + 2)"
  using assms
  by (simp add: record_exception_def Let_def current_config_def map_of_update_same record_status_def)

lemma empty_result_marks_error:
  assumes "map_of srcs sid = Some c" and "sid = ''jsl'' \<or> sid = ''eastmoney''" and "fetch sid = Fetched r" and "df_empty r"
  shows "map_option (\<lambda>c. (status c, error_count c)) (map_of (fst (snd (fallback_step fetch now sid config srcs))) sid)
           = Some (ERROR, error_count c + 1)"
  using assms
  by (auto simp: fallback_step_def map_of_update_same record_status_def)

text \<open>
  Claim C4 on the code. Recording three failures for \<^verbatim>\<open>jsl\<close> in the registry as initialised, with
  the call the fallback loop makes for an empty result, raises the counter to 3, which is
  \<^verbatim>\<open>max_retries\<close>, and leaves the status at \<^verbatim>\<open>error\<close>: \<open>update_source_status\<close> has no threshold.
  The threshold is in the \<^verbatim>\<open>except\<close> branch of the fallback loop only: for a source with a retry
  budget of 1, a raised exception ends in \<^verbatim>\<open>inactive\<close>, an empty table in \<^verbatim>\<open>error\<close>.
\<close>

theorem empty_result_skips_deactivation:
  "map (\<lambda>x. (fst x, status (snd x), error_count (snd x), max_retries (snd x)))
     (update_source_status 3 ''jsl'' ERROR (Some msg_empty_data)
       (update_source_status 2 ''jsl'' ERROR (Some msg_empty_data)
         (update_source_status 1 ''jsl'' ERROR (Some msg_empty_data) initialize_sources)))
     = [(''jsl'', ERROR, 3, 3), (''eastmoney'', ACTIVE, 0, 3), (''sina'', ACTIVE, 0, 3),
        (''tencent'', ACTIVE, 0, 3)]
   \<and> map (\<lambda>x. (fst x, status (snd x), error_count (snd x), max_retries (snd x)))
       (fst (snd (get_bond_list_with_fallback (\<lambda>_. Fetched pd_DataFrame) 0
          [(''jsl'', new_config ''jsl'' 1 ACTIVE 0 1 10)])))
     = [(''jsl'', ERROR, 1, 1)]
   \<and> map (\<lambda>x. (fst x, status (snd x), error_count (snd x), max_retries (snd x)))
       (fst (snd (get_bond_list_with_fallback (\<lambda>_. FetchRaised ''timeout'') 0
          [(''jsl'', new_config ''jsl'' 1 ACTIVE 0 1 10)])))
     = [(''jsl'', INACTIVE, 2, 1)]"
  by (simp add: get_bond_list_with_fallback_def get_source_by_priority_def initialize_sources_def
      new_config_def fallback_step_def df_empty_def pd_DataFrame_def update_source_status_def
      record_status_def record_exception_def current_config_def Let_def)

text \<open>
  Through \<open>get_bond_list_with_fallback\<close> the registry as initialised never reaches the
  threshold: the first failure of a source sets its status to \<^verbatim>\<open>error\<close>, which takes it off the
  list of \<open>get_source_by_priority\<close>, so its counter stays at 1, below the budget of 3, and the
  status \<^verbatim>\<open>inactive\<close> is never set.
\<close>

lemma never_exhausted_initial: "never_exhausted initialize_sources"
  by (simp add: never_exhausted_def within_budget_def initialize_sources_def new_config_def)

lemma map_fst_update_source_status:
  "map fst (update_source_status now sid st msg srcs) = map fst srcs"
  by (induction srcs) (auto simp: update_source_status_def)

lemma never_exhausted_update:
  assumes "never_exhausted srcs" and "map_of srcs sid = Some c"
    and "within_budget (record_status now st msg c)"
  shows "never_exhausted (update_source_status now sid st msg srcs)"
proof -
  have d: "distinct (map fst srcs)" using assms(1) by (simp add: never_exhausted_def)
  have "within_budget (snd y)" if "y \<in> set (update_source_status now sid st msg srcs)" for y
  proof -
    from that obtain k c' where x: "(k, c') \<in> set srcs"
      and y: "y = (if k = sid then (k, record_status now st msg c') else (k, c'))"
      by (auto simp: update_source_status_def)
    have g: "within_budget c'" using assms(1) x by (auto simp: never_exhausted_def list_all_iff)
    show ?thesis
    proof (cases "k = sid")
      case True
      with x d have "map_of srcs sid = Some c'" by simp
      with assms(2) have "c' = c" by simp
      with y True assms(3) show ?thesis by simp
    next
      case False
      with y g show ?thesis by simp
    qed
  qed
  then show ?thesis
    using d by (simp add: never_exhausted_def list_all_iff map_fst_update_source_status)
qed

lemma fallback_step_never_exhausted:
  assumes "never_exhausted srcs" and "map_of srcs sid = Some c" and "status c = ACTIVE"
  shows "never_exhausted (fst (snd (fallback_step fetch now sid config srcs)))
    \<and> map fst (fst (snd (fallback_step fetch now sid config srcs))) = map fst srcs
    \<and> (\<forall>k. k \<noteq> sid \<longrightarrow> map_of (fst (snd (fallback_step fetch now sid config srcs))) k = map_of srcs k)"
proof -
  have d: "distinct (map fst srcs)" using assms(1) by (simp add: never_exhausted_def)
  have "(sid, c) \<in> set srcs" using assms(2) by (rule map_of_SomeD)
  then have g: "within_budget c" using assms(1) by (auto simp: never_exhausted_def list_all_iff)
  with assms(3) have c0: "error_count c = 0" "2 \<le> max_retries c" by (auto simp: within_budget_def)
  have ok: "within_budget (record_status now ACTIVE None c)"
    using c0 by (simp add: within_budget_def record_status_def)
  have er: "within_budget (record_status now ERROR m c)" for m
    using c0 by (simp add: within_budget_def record_status_def)
  have ex: "record_exception now sid config e srcs = update_source_status now sid ERROR (Some e) srcs"
    for e
    using c0 assms(2)
    by (simp add: record_exception_def Let_def current_config_def map_of_update_same record_status_def)
  have upd: "never_exhausted (update_source_status now sid st m srcs)
      \<and> map fst (update_source_status now sid st m srcs) = map fst srcs
      \<and> (\<forall>k. k \<noteq> sid \<longrightarrow> map_of (update_source_status now sid st m srcs) k = map_of srcs k)"
    if "within_budget (record_status now st m c)" for st m
    using never_exhausted_update [OF assms(1,2) that]
    by (simp add: map_fst_update_source_status map_of_update_other)
  show ?thesis
  proof (cases "sid = ''jsl'' \<or> sid = ''eastmoney''")
    case False
    then have "fallback_step fetch now sid config srcs = (None, srcs, [])"
      by (simp add: fallback_step_def)
    with assms(1) show ?thesis by simp
  next
    case named: True
    show ?thesis
    proof (cases "fetch sid")
      case (Fetched result)
      show ?thesis
      proof (cases "df_empty result")
        case True
        with named Fetched have "fst (snd (fallback_step fetch now sid config srcs))
            = update_source_status now sid ERROR (Some msg_empty_data) srcs"
          by (simp add: fallback_step_def)
        with upd [OF er] show ?thesis by simp
      next
        case False
        with named Fetched have "fst (snd (fallback_step fetch now sid config srcs))
            = update_source_status now sid ACTIVE None srcs"
          by (simp add: fallback_step_def)
        with upd [OF ok] show ?thesis by simp
      qed
    next
      case (FetchRaised e)
      with named have "fst (snd (fallback_step fetch now sid config srcs))
            = update_source_status now sid ERROR (Some e) srcs"
        by (simp add: fallback_step_def ex)
      with upd [OF er] show ?thesis by simp
    qed
  qed
qed

lemma fallback_loop_never_exhausted:
  assumes "never_exhausted srcs" and "distinct (map fst todo)"
    and "\<forall>x \<in> set todo. \<exists>c. map_of srcs (fst x) = Some c \<and> status c = ACTIVE"
  shows "never_exhausted (fst (snd (fallback_loop fetch now todo srcs)))"
  using assms
proof (induction todo arbitrary: srcs)
  case Nil
  then show ?case by simp
next
  case (Cons a todo)
  obtain sid config where a: "a = (sid, config)" by (cases a)
  from Cons.prems(3) a obtain c where c: "map_of srcs sid = Some c" "status c = ACTIVE" by auto
  obtain r srcs' evs where st: "fallback_step fetch now sid config srcs = (r, srcs', evs)"
    by (cases "fallback_step fetch now sid config srcs")
  from fallback_step_never_exhausted [OF Cons.prems(1) c, of fetch now config] st
  have n: "never_exhausted srcs'"
    and o: "\<forall>k. k \<noteq> sid \<longrightarrow> map_of srcs' k = map_of srcs k" by auto
  show ?case
  proof (cases r)
    case (Some res)
    with st a n show ?thesis by simp
  next
    case None
    have d: "distinct (map fst todo)" using Cons.prems(2) by simp
    have "\<forall>x \<in> set todo. \<exists>c. map_of srcs' (fst x) = Some c \<and> status c = ACTIVE"
    proof
      fix x assume x: "x \<in> set todo"
      then have "fst x \<noteq> sid" using Cons.prems(2) a by auto
      with o have "map_of srcs' (fst x) = map_of srcs (fst x)" by simp
      with Cons.prems(3) x show "\<exists>c. map_of srcs' (fst x) = Some c \<and> status c = ACTIVE" by simp
    qed
    from Cons.IH [OF n d this] st a None show ?thesis by (auto split: prod.splits)
  qed
qed

lemma distinct_listed_sources:
  assumes "distinct (map fst srcs)"
  shows "distinct (map fst (get_source_by_priority srcs))"
proof -
  have "distinct (map fst (filter (\<lambda>x. status (snd x) = ACTIVE) srcs))"
    using assms by (rule distinct_map_filter)
  moreover have "mset (map fst (get_source_by_priority srcs))
      = mset (map fst (filter (\<lambda>x. status (snd x) = ACTIVE) srcs))"
    by (simp add: get_source_by_priority_def)
  ultimately show ?thesis by (metis mset_eq_imp_distinct_iff)
qed

lemma fallback_never_deactivates:
  assumes "never_exhausted srcs"
  shows "never_exhausted (fst (snd (get_bond_list_with_fallback fetch now srcs)))
    \<and> (\<forall>x \<in> set (fst (snd (get_bond_list_with_fallback fetch now srcs))).
          status (snd x) \<noteq> INACTIVE \<and> error_count (snd x) < max_retries (snd x))"
proof -
  have d: "distinct (map fst srcs)" using assms by (simp add: never_exhausted_def)
  have l: "\<forall>x \<in> set (get_source_by_priority srcs). \<exists>c. map_of srcs (fst x) = Some c \<and> status c = ACTIVE"
  proof
    fix x assume "x \<in> set (get_source_by_priority srcs)"
    then have a: "status (snd x) = ACTIVE" and m: "(fst x, snd x) \<in> set srcs"
      using listed_sources_are_active [of "fst x" "snd x" srcs] by auto
    from d m have "map_of srcs (fst x) = Some (snd x)" by (rule map_of_is_SomeI)
    with a show "\<exists>c. map_of srcs (fst x) = Some c \<and> status c = ACTIVE" by simp
  qed
  have n: "never_exhausted (fst (snd (get_bond_list_with_fallback fetch now srcs)))"
    unfolding get_bond_list_with_fallback_def
    using assms distinct_listed_sources [OF d] l by (rule fallback_loop_never_exhausted)
  then show ?thesis
    by (auto simp: never_exhausted_def list_all_iff within_budget_def)
qed

section \<open>Properties of the fetcher\<close>







section \<open>Properties of the archiver\<close>

lemma latest_trade_date_None:
  "latest_trade_date today cal = None \<longleftrightarrow> (\<forall>t \<in> set cal. \<not> t \<le> today)"
  by (auto simp: latest_trade_date_def filter_empty_conv split: list.splits)
   (metis filter_empty_conv list.distinct(1))

lemma latest_trade_date_Some:
  assumes "latest_trade_date today cal = Some l"
  shows "l \<in> set cal \<and> l \<le> today \<and> (\<forall>t \<in> set cal. t \<le> today \<longrightarrow> t \<le> l)"
proof -
  from assms obtain t ts where f: "filter (\<lambda>t. t \<le> today) cal = t # ts" and l: "l = fold max ts t"
    by (auto simp: latest_trade_date_def split: list.splits)
  have m: "l = Max (set (t # ts))" using l Max.set_eq_fold [of t ts] by simp
  have "l \<in> set (t # ts)" unfolding m by (rule Max_in) auto
  moreover have "\<forall>x \<in> set (t # ts). x \<le> l" unfolding m by simp
  moreover have "set (t # ts) = {x \<in> set cal. x \<le> today}" using f [symmetric] by simp
  ultimately show ?thesis by auto
qed

lemma backfill_gap_dates_set:
  assumes "strptime s = Some D" and "distinct trade_calendar"
  shows "\<exists>gaps. backfill_gap_dates strptime (Some s) today trade_calendar = Inr gaps
     \<and> set gaps = {t \<in> set trade_calendar. D < t \<and> t \<le> today}
                   - {l \<in> set trade_calendar. l \<le> today \<and> (\<forall>t \<in> set trade_calendar. t \<le> today \<longrightarrow> t \<le> l)}
     \<and> distinct gaps"
proof -
  let ?miss = "filter (\<lambda>t. D + 1 \<le> t \<and> t \<le> today) trade_calendar"
  let ?L = "{l \<in> set trade_calendar. l \<le> today \<and> (\<forall>t \<in> set trade_calendar. t \<le> today \<longrightarrow> t \<le> l)}"
  have dm: "distinct ?miss" using assms(2) by simp
  have sm: "set ?miss = {t \<in> set trade_calendar. D < t \<and> t \<le> today}" by auto
  show ?thesis
  proof (cases "trade_calendar = []")
    case True
    then show ?thesis by (simp add: backfill_gap_dates_def)
  next
    case False
    have gm: "get_missing_dates strptime (Some s) today trade_calendar = Inr ?miss"
      using assms(1) False by (simp add: get_missing_dates_def)
    show ?thesis
    proof (cases "latest_trade_date today trade_calendar")
      case None
      then have "\<forall>t \<in> set trade_calendar. \<not> t \<le> today" by (simp add: latest_trade_date_None)
      then have e: "?L = {}" by auto
      have b: "backfill_gap_dates strptime (Some s) today trade_calendar = Inr ?miss"
        using None gm False by (simp add: backfill_gap_dates_def)
      have "set ?miss = {t \<in> set trade_calendar. D < t \<and> t \<le> today} - {}" using sm by simp
      with b dm show ?thesis unfolding e by blast
    next
      case (Some l)
      from latest_trade_date_Some [OF Some]
      have l: "l \<in> set trade_calendar" "l \<le> today" "\<forall>t \<in> set trade_calendar. t \<le> today \<longrightarrow> t \<le> l"
        by auto
      have L: "?L = {l}"
      proof
        show "?L \<subseteq> {l}"
        proof
          fix x assume "x \<in> ?L"
          then have "x \<le> l" "l \<le> x" using l by auto
          then show "x \<in> {l}" by simp
        qed
        show "{l} \<subseteq> ?L" using l by auto
      qed
      show ?thesis
      proof (cases "l \<in> set ?miss")
        case True
        then have "backfill_gap_dates strptime (Some s) today trade_calendar = Inr (remove1 l ?miss)"
          using Some gm False by (simp add: backfill_gap_dates_def)
        moreover have "set (remove1 l ?miss) = set ?miss - {l}" using dm by (rule set_remove1_eq)
        moreover have "distinct (remove1 l ?miss)" using dm by simp
        ultimately show ?thesis unfolding L sm by blast
      next
        case notin: False
        then have "backfill_gap_dates strptime (Some s) today trade_calendar = Inr ?miss"
          using Some gm False by (auto simp: backfill_gap_dates_def)
        moreover have "set ?miss - {l} = set ?miss" using notin by simp
        ultimately show ?thesis unfolding L using dm sm by metis
      qed
    qed
  qed
qed

text \<open>
  Claim C5: for every last-stored trade date \<open>D\<close> and every trading calendar (a set of dates:
  no date twice), the dates the archiver backfills are the calendar dates \<open>t\<close> with
  \<open>D < t \<le> today\<close>, minus the latest trading day up to today; with calendar
  \<open>D+1, D+2, D+3\<close> and \<open>today = D+3\<close> they are \<open>D+1, D+2\<close>.
\<close>

theorem backfill_gap_set:
  assumes "strptime s = Some D" and "distinct trade_calendar"
  shows "(\<exists>gaps. backfill_gap_dates strptime (Some s) today trade_calendar = Inr gaps
     \<and> set gaps = {t \<in> set trade_calendar. D < t \<and> t \<le> today}
                   - {l \<in> set trade_calendar. l \<le> today \<and> (\<forall>t \<in> set trade_calendar. t \<le> today \<longrightarrow> t \<le> l)}
     \<and> distinct gaps)
     \<and> backfill_gap_dates strptime (Some s) (D + 3) [D + 1, D + 2, D + 3] = Inr [D + 1, D + 2]"
proof
  show "\<exists>gaps. backfill_gap_dates strptime (Some s) today trade_calendar = Inr gaps
     \<and> set gaps = {t \<in> set trade_calendar. D < t \<and> t \<le> today}
                   - {l \<in> set trade_calendar. l \<le> today \<and> (\<forall>t \<in> set trade_calendar. t \<le> today \<longrightarrow> t \<le> l)}
     \<and> distinct gaps"
    using assms by (rule backfill_gap_dates_set)
  show "backfill_gap_dates strptime (Some s) (D + 3) [D + 1, D + 2, D + 3] = Inr [D + 1, D + 2]"
    using assms(1) by (simp add: backfill_gap_dates_def get_missing_dates_def latest_trade_date_def)
qed

theorem backfill_gap_set_witness:
  "distinct [20, 21, 22, 25 :: int]
   \<and> backfill_gap_dates (\<lambda>s. if s = ''2024-03-19'' then Some 19 else None) (Some ''2024-03-19'') 23
        [18, 19, 20, 21, 22, 25] = Inr [20, 21]"
  using backfill_gap_set [of "\<lambda>s. if s = ''2024-03-19'' then Some 19 else None" "''2024-03-19''" 19
      "[18, 19, 20, 21, 22, 25]" 23]
  by (simp add: backfill_gap_dates_def get_missing_dates_def latest_trade_date_def)


section \<open>Properties of the field normaliser\<close>






lemma to_numeric_notna: "\<not> isna (to_numeric to_float c) \<longleftrightarrow> (\<exists>x. to_numeric to_float c = Num x)"
  by (auto simp: to_numeric_def isna_def split: cell.splits option.splits)















section \<open>Properties of the derived metrics\<close>

lemmas metrics_eval = calculate_derived_metrics_def add_double_low_def add_price_chg_pct_def
  pct_change_def sort_values_def sort_rows_def set_column_def get_column_def df_empty_def
  cell_times_def mk_row_def is_num_def is_str_def




lemma mset_insort_row: "mset (insort_row by r xs) = add_mset r (mset xs)"
  by (induction xs) auto


lemma mset_sort_rows: "mset (sort_rows by rs) = mset rs"
  by (induction rs) (simp_all add: sort_rows_def mset_insort_row)



lemma length_ffill: "length (ffill seen cs) = length cs"
  by (induction cs arbitrary: seen) auto

lemma ffill_nth: "i < length cs \<Longrightarrow> cs ! i \<noteq> Null \<Longrightarrow> ffill seen cs ! i = cs ! i"
proof (induction cs arbitrary: seen i)
  case Nil
  then show ?case by simp
next
  case (Cons c cs)
  then show ?case by (cases i) auto
qed

lemma pct_from_nth:
  "pct_from prev cs = Inr vs \<Longrightarrow>
     length vs = length cs \<and> (\<forall>i < length cs. pct ((prev # cs) ! i) (cs ! i) = Inr (vs ! i))"
proof (induction cs arbitrary: prev vs)
  case Nil
  then show ?case by simp
next
  case (Cons c cs)
  from Cons.prems obtain v vs' where
    v: "pct prev c = Inr v" and r: "pct_from c cs = Inr vs'" and vs: "vs = v # vs'"
    by (auto split: sum.splits)
  from Cons.IH [OF r] have l: "length vs' = length cs"
    and n: "\<forall>i < length cs. pct ((c # cs) ! i) (cs ! i) = Inr (vs' ! i)" by auto
  have "\<forall>i < length (c # cs). pct ((prev # c # cs) ! i) ((c # cs) ! i) = Inr (vs ! i)"
  proof (intro allI impI)
    fix i assume "i < length (c # cs)"
    then show "pct ((prev # c # cs) ! i) ((c # cs) ! i) = Inr (vs ! i)"
      using v n vs by (cases i) auto
  qed
  with l vs show ?case by simp
qed

lemma pct_change_nth:
  assumes "pct_change pad cs = Inr vs"
  shows "length vs = length cs"
    and "cs \<noteq> [] \<Longrightarrow> vs ! 0 = Null"
    and "0 < i \<Longrightarrow> i < length cs \<Longrightarrow> cs ! (i - 1) = Num a \<Longrightarrow> cs ! i = Num b \<Longrightarrow> a \<noteq> 0
           \<Longrightarrow> vs ! i = Num (b / a - 1)"
proof -
  define d where "d = (if pad then ffill Null cs else cs)"
  have ld: "length d = length cs" by (simp add: d_def length_ffill)
  have keep: "d ! k = cs ! k" if "k < length cs" "cs ! k \<noteq> Null" for k
    using that by (simp add: d_def ffill_nth)
  from assms have p: "pct_from Null d = Inr vs" by (simp add: pct_change_def d_def)
  from pct_from_nth [OF p] have l: "length vs = length d"
    and n: "\<forall>i < length d. pct ((Null # d) ! i) (d ! i) = Inr (vs ! i)" by auto
  show "length vs = length cs" using l ld by simp
  show "vs ! 0 = Null" if "cs \<noteq> []"
  proof -
    from that ld have "0 < length d" by simp
    with n have "pct ((Null # d) ! 0) (d ! 0) = Inr (vs ! 0)" by blast
    then show ?thesis by simp
  qed
  show "vs ! i = Num (b / a - 1)"
    if "0 < i" "i < length cs" "cs ! (i - 1) = Num a" "cs ! i = Num b" "a \<noteq> 0"
  proof -
    have di: "d ! i = Num b" using that keep [of i] by simp
    have dp: "d ! (i - 1) = Num a" using that keep [of "i - 1"] by simp
    have "i < length d" using that ld by simp
    with n have "pct ((Null # d) ! i) (d ! i) = Inr (vs ! i)" by blast
    moreover have "(Null # d) ! i = d ! (i - 1)" using that by (cases i) auto
    ultimately have "pct (Num a) (Num b) = Inr (vs ! i)" using di dp by simp
    then show ?thesis using that by simp
  qed
qed

lemma add_columns_nth:
  "add_columns as bs = Inr vs \<Longrightarrow> length as = length bs \<Longrightarrow>
     length vs = length as \<and> (\<forall>i < length as. cell_add (as ! i) (bs ! i) = Inr (vs ! i))"
proof (induction as arbitrary: bs vs)
  case Nil
  then show ?case by simp
next
  case (Cons a as)
  from Cons.prems(2) obtain b bs' where bs: "bs = b # bs'" and len: "length as = length bs'"
    by (cases bs) auto
  from Cons.prems(1) bs obtain v vs' where
    v: "cell_add a b = Inr v" and r: "add_columns as bs' = Inr vs'" and vs: "vs = v # vs'"
    by (auto split: sum.splits)
  from Cons.IH [OF r len] have l: "length vs' = length as"
    and n: "\<forall>i < length as. cell_add (as ! i) (bs' ! i) = Inr (vs' ! i)" by auto
  have "\<forall>i < length (a # as). cell_add ((a # as) ! i) (bs ! i) = Inr (vs ! i)"
  proof (intro allI impI)
    fix i assume "i < length (a # as)"
    then show "cell_add ((a # as) ! i) (bs ! i) = Inr (vs ! i)"
      using v n vs bs by (cases i) auto
  qed
  with l vs show ?case by simp
qed



lemma length_get_column: "length (get_column c df) = length (rows df)"
  by (simp add: get_column_def)











section \<open>Properties of the merge\<close>

lemmas merge_eval = merge_bond_data_def merge_valuation_def merge_left_def join_row_def
  join_rows_def left_names_def right_names_def overlaps_def
  fillna_from_def drop_column_def assign_scalar_def isna_def pd_DataFrame_def


lemma foldr_assign_other:
  "c' \<notin> snd ` set ps \<Longrightarrow> foldr (\<lambda>(c, c') acc. acc(c' := f c)) ps base c' = base c'"
  by (induction ps) auto

lemma foldr_assign_same:
  "distinct (map snd ps) \<Longrightarrow> (c, c') \<in> set ps \<Longrightarrow>
     foldr (\<lambda>(c, c') acc. acc(c' := f c)) ps base c' = f c"
proof (induction ps)
  case Nil
  then show ?case by simp
next
  case (Cons p ps)
  obtain a a' where p: "p = (a, a')" by (cases p)
  show ?case
  proof (cases "(c, c') = p")
    case True
    with p show ?thesis by simp
  next
    case False
    with Cons.prems have in_ps: "(c, c') \<in> set ps" by simp
    then have "c' \<in> snd ` set ps" by force
    with Cons.prems(1) p have "a' \<noteq> c'" by auto
    with Cons.IH in_ps Cons.prems(1) p show ?thesis by simp
  qed
qed

lemma join_row_left:
  "distinct (map snd lnames) \<Longrightarrow> (c, c') \<in> set lnames \<Longrightarrow> join_row lnames l rnames r c' = l c"
  unfolding join_row_def by (rule foldr_assign_same)

lemma join_row_right:
  "distinct (map snd rnames) \<Longrightarrow> c' \<notin> snd ` set lnames \<Longrightarrow> (c, c') \<in> set rnames \<Longrightarrow>
     join_row lnames l rnames r c' = r c"
  unfolding join_row_def by (simp add: foldr_assign_other foldr_assign_same)

lemma merge_left_rows:
  assumes "merge_left on suffixes left right = Inr m"
  shows "\<exists>J. rows m = concat (map (\<lambda>l. case filter (\<lambda>r. r on = l on) (rows right) of
                                          [] \<Rightarrow> [J l (\<lambda>c. Null)] | ms \<Rightarrow> map (J l) ms) (rows left))
    \<and> (\<forall>l r c. c \<in> set (columns left) \<and> (c = on \<or> c \<notin> set (columns right) \<or> fst suffixes = [])
          \<longrightarrow> J l r c = l c)
    \<and> (\<forall>l r c. c \<in> set (columns right) \<and> c \<noteq> on \<and> c \<notin> set (columns left) \<longrightarrow> J l r c = r c)"
proof -
  let ?ln = "left_names on suffixes left right" and ?rn = "right_names on suffixes left right"
  from assms have d: "distinct (map snd ?ln @ map snd ?rn)"
    and m: "rows m = join_rows on ?ln ?rn (rows left) (rows right)"
    by (auto simp: merge_left_def split: if_splits)
  from d have dl: "distinct (map snd ?ln)" and dr: "distinct (map snd ?rn)"
    and dj: "snd ` set ?ln \<inter> snd ` set ?rn = {}" by auto
  have left: "join_row ?ln l ?rn r c = l c"
    if "c \<in> set (columns left)" "c = on \<or> c \<notin> set (columns right) \<or> fst suffixes = []" for l r c
  proof -
    have "overlaps on left right c \<Longrightarrow> fst suffixes = []" using that by (auto simp: overlaps_def)
    then have "(c, c) \<in> set ?ln" using that(1) by (force simp: left_names_def)
    with dl show ?thesis by (rule join_row_left)
  qed
  have right: "join_row ?ln l ?rn r c = r c"
    if "c \<in> set (columns right)" "c \<noteq> on" "c \<notin> set (columns left)" for l r c
  proof -
    have "\<not> overlaps on left right c" using that by (simp add: overlaps_def)
    then have r: "(c, c) \<in> set ?rn" using that by (force simp: right_names_def)
    then have "c \<in> snd ` set ?rn" by force
    with dj have "c \<notin> snd ` set ?ln" by auto
    with dr show ?thesis using r by (rule join_row_right)
  qed
  show ?thesis
    by (rule exI [of _ "\<lambda>l r. join_row ?ln l ?rn r"]) (use m left right in \<open>simp add: join_rows_def\<close>)
qed

lemma merge_left_columns:
  assumes "merge_left on suffixes left right = Inr m"
  shows "(\<forall>c. c \<in> set (columns left) \<and> (c = on \<or> c \<notin> set (columns right) \<or> fst suffixes = [])
          \<longrightarrow> c \<in> set (columns m))
       \<and> (\<forall>c. c \<in> set (columns right) \<and> c \<noteq> on \<and> c \<notin> set (columns left) \<longrightarrow> c \<in> set (columns m))"
proof -
  let ?ln = "left_names on suffixes left right" and ?rn = "right_names on suffixes left right"
  from assms have c: "columns m = map snd ?ln @ map snd ?rn"
    by (auto simp: merge_left_def split: if_splits)
  have "c \<in> set (columns m)"
    if "c \<in> set (columns left)" "c = on \<or> c \<notin> set (columns right) \<or> fst suffixes = []" for c
  proof -
    have "overlaps on left right c \<Longrightarrow> fst suffixes = []" using that by (auto simp: overlaps_def)
    then have "(c, c) \<in> set ?ln" using that(1) by (force simp: left_names_def)
    then show ?thesis unfolding c by force
  qed
  moreover have "c \<in> set (columns m)"
    if "c \<in> set (columns right)" "c \<noteq> on" "c \<notin> set (columns left)" for c
  proof -
    have "\<not> overlaps on left right c" using that by (simp add: overlaps_def)
    then have "(c, c) \<in> set ?rn" using that by (force simp: right_names_def)
    then show ?thesis unfolding c by force
  qed
  ultimately show ?thesis by blast
qed


lemma case_list_if: "(case xs of [] \<Rightarrow> a | y # ys \<Rightarrow> f (y # ys)) = (if xs = [] then a else f xs)"
  by (cases xs) auto

lemma left_join_image:
  "g ` set (concat (map (\<lambda>l. case filter (Q l) rs of [] \<Rightarrow> [J l n] | ms \<Rightarrow> map (J l) ms) ls))
     = (\<Union>l \<in> set ls. if (\<forall>r \<in> set rs. \<not> Q l r) then {g (J l n)}
                        else (\<lambda>r. g (J l r)) ` {r \<in> set rs. Q l r})"
  by (auto simp: case_list_if filter_empty_conv)

lemma left_join_keeps:
  assumes "rows m = concat (map (\<lambda>l. case filter (Q l) rs of [] \<Rightarrow> [J l n] | ms \<Rightarrow> map (J l) ms) ls)"
    and "\<forall>l r. g (J l r) = g l"
  shows "g ` set (rows m) = g ` set ls"
proof -
  have "(if (\<forall>r \<in> set rs. \<not> Q l r) then {g (J l n)}
         else (\<lambda>r. g (J l r)) ` {r \<in> set rs. Q l r}) = {g l}" for l
    using assms(2) by auto
  then show ?thesis unfolding assms(1) left_join_image by auto
qed

lemma merge_left_keeps:
  assumes "merge_left on suffixes left right = Inr m"
    and "a \<in> set (columns left)" and "a = on \<or> a \<notin> set (columns right) \<or> fst suffixes = []"
    and "b \<in> set (columns left)" and "b = on \<or> b \<notin> set (columns right) \<or> fst suffixes = []"
  shows "(\<lambda>r. (r a, r b)) ` set (rows m) = (\<lambda>r. (r a, r b)) ` set (rows left)"
proof -
  from merge_left_rows [OF assms(1)] obtain J where
    r: "rows m = concat (map (\<lambda>l. case filter (\<lambda>r. r on = l on) (rows right) of
                                  [] \<Rightarrow> [J l (\<lambda>c. Null)] | ms \<Rightarrow> map (J l) ms) (rows left))"
    and l: "\<forall>l r c. c \<in> set (columns left) \<and> (c = on \<or> c \<notin> set (columns right) \<or> fst suffixes = [])
          \<longrightarrow> J l r c = l c"
    by blast
  have "\<forall>l r. (J l r a, J l r b) = (l a, l b)" using l assms(2-5) by simp
  with r show ?thesis by (rule left_join_keeps)
qed

lemma merge_valuation_pairs:
  assumes "merge_valuation hist_df value_df = Inr merged" and "\<not> df_empty value_df"
    and "''trade_date'' \<in> set (columns hist_df)"
    and "''price'' \<in> set (columns hist_df)" and "''price_val'' \<notin> set (columns hist_df)"
    and "''price_val'' \<in> set (columns value_df)"
  shows "(\<lambda>r. (r ''trade_date'', r ''price'')) ` set (rows merged) =
           (\<Union>h \<in> set (rows hist_df).
              if (\<forall>v \<in> set (rows value_df). \<not> v ''trade_date'' = h ''trade_date'')
              then {(h ''trade_date'', h ''price'')}
              else (\<lambda>v. (h ''trade_date'', if h ''price'' = Null then v ''price_val'' else h ''price''))
                     ` {v \<in> set (rows value_df). v ''trade_date'' = h ''trade_date''})
       \<and> ''price'' \<in> set (columns merged) \<and> ''trade_date'' \<in> set (columns merged)"
proof -
  from assms(1,2) obtain m where m: "merge_left ''trade_date'' ([], ''_val'') hist_df value_df = Inr m"
    by (auto simp: merge_valuation_def split: sum.splits)
  from merge_left_columns [OF m] assms(3-6)
  have cm: "''price'' \<in> set (columns m)" "''price_val'' \<in> set (columns m)"
    "''trade_date'' \<in> set (columns m)" by auto
  with assms(1,2) m have merged: "merged = drop_column ''price_val'' (fillna_from ''price'' ''price_val'' m)"
    by (simp add: merge_valuation_def)
  from merge_left_rows [OF m] obtain J where
    r: "rows m = concat (map (\<lambda>l. case filter (\<lambda>r. r ''trade_date'' = l ''trade_date'') (rows value_df) of
                                  [] \<Rightarrow> [J l (\<lambda>c. Null)] | ms \<Rightarrow> map (J l) ms) (rows hist_df))"
    and l: "\<forall>l r c. c \<in> set (columns hist_df)
              \<and> (c = ''trade_date'' \<or> c \<notin> set (columns value_df) \<or> fst ([] :: string, ''_val'') = [])
          \<longrightarrow> J l r c = l c"
    and rr: "\<forall>l r c. c \<in> set (columns value_df) \<and> c \<noteq> ''trade_date'' \<and> c \<notin> set (columns hist_df)
          \<longrightarrow> J l r c = r c"
    by blast
  have Jd: "J l r ''trade_date'' = l ''trade_date''" for l r using l assms(3) by simp
  have Jp: "J l r ''price'' = l ''price''" for l r using l assms(4) by simp
  have Jv: "J l r ''price_val'' = r ''price_val''" for l r using rr assms(5,6) by simp
  let ?F = "\<lambda>r::row. (r(''price'' := if isna (r ''price'') then r ''price_val'' else r ''price''))
                        (''price_val'' := Null)"
  let ?g = "\<lambda>r::row. (?F r ''trade_date'', ?F r ''price'')"
  have rm: "rows merged = map ?F (rows m)"
    by (simp add: merged drop_column_def fillna_from_def)
  have g: "?g (J l r) = (l ''trade_date'', if l ''price'' = Null then r ''price_val'' else l ''price'')"
    for l r by (simp add: Jd Jp Jv isna_def)
  have "(\<lambda>r. (r ''trade_date'', r ''price'')) ` set (rows merged) = ?g ` set (rows m)"
    unfolding rm by (simp add: image_image)
  also have "\<dots> = (\<Union>l \<in> set (rows hist_df).
        if (\<forall>r \<in> set (rows value_df). \<not> r ''trade_date'' = l ''trade_date'')
        then {?g (J l (\<lambda>c. Null))}
        else (\<lambda>r. ?g (J l r)) ` {r \<in> set (rows value_df). r ''trade_date'' = l ''trade_date''})"
    unfolding r by (rule left_join_image)
  also have "\<dots> = (\<Union>h \<in> set (rows hist_df).
              if (\<forall>v \<in> set (rows value_df). \<not> v ''trade_date'' = h ''trade_date'')
              then {(h ''trade_date'', h ''price'')}
              else (\<lambda>v. (h ''trade_date'', if h ''price'' = Null then v ''price_val'' else h ''price''))
                     ` {v \<in> set (rows value_df). v ''trade_date'' = h ''trade_date''})"
    unfolding g by (intro SUP_cong refl) auto
  finally have main: "(\<lambda>r. (r ''trade_date'', r ''price'')) ` set (rows merged) =
           (\<Union>h \<in> set (rows hist_df).
              if (\<forall>v \<in> set (rows value_df). \<not> v ''trade_date'' = h ''trade_date'')
              then {(h ''trade_date'', h ''price'')}
              else (\<lambda>v. (h ''trade_date'', if h ''price'' = Null then v ''price_val'' else h ''price''))
                     ` {v \<in> set (rows value_df). v ''trade_date'' = h ''trade_date''})" .
  have "''price'' \<in> set (columns merged)" "''trade_date'' \<in> set (columns merged)"
    using cm by (simp_all add: merged drop_column_def fillna_from_def)
  with main show ?thesis by blast
qed


lemma rows_set_column_keeps:
  "length vs = length (rows df) \<Longrightarrow> col \<noteq> a \<Longrightarrow> col \<noteq> b \<Longrightarrow>
     map (\<lambda>r. (r a, r b)) (rows (set_column col vs df)) = map (\<lambda>r. (r a, r b)) (rows df)"
  by (auto simp: set_column_def intro!: nth_equalityI)

lemma add_price_chg_pct_keeps:
  assumes "add_price_chg_pct pad df = Inr df'" and "a \<noteq> ''price_chg_pct''" and "b \<noteq> ''price_chg_pct''"
  shows "map (\<lambda>r. (r a, r b)) (rows df') = map (\<lambda>r. (r a, r b)) (rows df)"
proof (cases "''price'' \<in> set (columns df)")
  case False
  with assms(1) show ?thesis by (simp add: add_price_chg_pct_def)
next
  case True
  with assms(1) obtain chg where
    c: "pct_change pad (get_column ''price'' df) = Inr chg"
    and d: "df' = set_column ''price_chg_pct'' (map (cell_times 100) chg) df"
    by (auto simp: add_price_chg_pct_def split: sum.splits if_splits)
  have "length (map (cell_times 100) chg) = length (rows df)"
    using pct_change_nth(1) [OF c] by (simp add: length_get_column)
  then show ?thesis unfolding d using assms(2,3) by (intro rows_set_column_keeps) auto
qed

lemma add_double_low_keeps:
  assumes "add_double_low df = Inr df'" and "a \<noteq> ''double_low''" and "b \<noteq> ''double_low''"
  shows "map (\<lambda>r. (r a, r b)) (rows df') = map (\<lambda>r. (r a, r b)) (rows df)"
proof (cases "''price'' \<in> set (columns df) \<and> ''premium_rate'' \<in> set (columns df)")
  case False
  with assms(1) show ?thesis by (auto simp: add_double_low_def)
next
  case True
  with assms(1) obtain dl where
    c: "add_columns (get_column ''price'' df) (get_column ''premium_rate'' df) = Inr dl"
    and d: "df' = set_column ''double_low'' dl df"
    by (auto simp: add_double_low_def split: sum.splits if_splits)
  have "length dl = length (rows df)"
    using add_columns_nth [OF c] by (simp add: length_get_column)
  then show ?thesis unfolding d using assms(2,3) by (intro rows_set_column_keeps) auto
qed

lemma set_sort_rows: "set (sort_rows by rs) = set rs"
  using mset_sort_rows [of "by" rs] by (metis set_mset_mset)

lemma derived_metrics_keeps:
  assumes "calculate_derived_metrics pad df = Inr out"
    and "a \<noteq> ''price_chg_pct''" and "b \<noteq> ''price_chg_pct''"
    and "a \<noteq> ''double_low''" and "b \<noteq> ''double_low''"
  shows "(\<lambda>r. (r a, r b)) ` set (rows out) = (\<lambda>r. (r a, r b)) ` set (rows df)"
proof (cases "df_empty df")
  case True
  with assms(1) show ?thesis by (simp add: calculate_derived_metrics_def)
next
  case False
  let ?df1 = "df\<lparr>rows := sort_rows ''trade_date'' (rows df)\<rparr>"
  from assms(1) False obtain df2 where
    p: "add_price_chg_pct pad ?df1 = Inr df2" and d: "add_double_low df2 = Inr out"
    by (auto simp: calculate_derived_metrics_def sort_values_def split: sum.splits if_splits)
  have "map (\<lambda>r. (r a, r b)) (rows out) = map (\<lambda>r. (r a, r b)) (rows df2)"
    using d assms(4,5) by (rule add_double_low_keeps)
  also have "\<dots> = map (\<lambda>r. (r a, r b)) (rows ?df1)"
    using p assms(2,3) by (rule add_price_chg_pct_keeps)
  finally have "set (map (\<lambda>r. (r a, r b)) (rows out)) = set (map (\<lambda>r. (r a, r b)) (rows ?df1))"
    by simp
  then show ?thesis by (simp add: set_sort_rows)
qed

lemma assign_scalar_keeps:
  "a \<noteq> col \<Longrightarrow> b \<noteq> col \<Longrightarrow>
     map (\<lambda>r. (r a, r b)) (rows (assign_scalar col v df)) = map (\<lambda>r. (r a, r b)) (rows df)"
  by (simp add: assign_scalar_def)

lemma columns_assign_scalar: "set (columns df) \<subseteq> set (columns (assign_scalar col v df))"
  by (auto simp: assign_scalar_def)

lemma broadcast_keeps:
  "a \<notin> fst ` set info \<Longrightarrow> b \<notin> fst ` set info \<Longrightarrow>
     map (\<lambda>r. (r a, r b)) (rows (foldl (\<lambda>df (key, v). assign_scalar key v df) df info))
       = map (\<lambda>r. (r a, r b)) (rows df)
     \<and> set (columns df) \<subseteq> set (columns (foldl (\<lambda>df (key, v). assign_scalar key v df) df info))"
proof (induction info arbitrary: df)
  case Nil
  then show ?case by simp
next
  case (Cons kv info)
  obtain k v where kv: "kv = (k, v)" by (cases kv)
  from Cons.prems kv have n: "a \<noteq> k" "b \<noteq> k" "a \<notin> fst ` set info" "b \<notin> fst ` set info"
    by auto
  from Cons.IH [OF n(3,4), of "assign_scalar k v df"] assign_scalar_keeps [OF n(1,2), of v df]
    columns_assign_scalar [of df k v]
  show ?case unfolding kv by auto
qed


text \<open>
  Claim C2: for every non-empty primary table with a \<^verbatim>\<open>price\<close> column and every non-empty
  valuation table with a \<^verbatim>\<open>price_val\<close> column on which \<open>merge_bond_data\<close> succeeds (the bond's
  identity fields not being named \<^verbatim>\<open>price\<close> or \<^verbatim>\<open>trade_date\<close>, and the stock table having no
  \<^verbatim>\<open>price\<close> column), the dated prices of the result are exactly these: for each primary row,
  its date with its own price when no valuation row has that date; otherwise, for each
  valuation row of that date, the date with the primary price when that is not null and with
  the valuation row's price when it is. Primary prices 10, null, 12 merged with valuation
  prices 9, 11, 13 on the same dates give 10, 11, 12.
\<close>

theorem merge_primary_price_wins:
  assumes "merge_bond_data pad hist_df value_df stock_df bond_info = Inr out"
    and "\<not> df_empty hist_df" and "\<not> df_empty value_df"
    and "''price'' \<in> set (columns hist_df)" and "''price_val'' \<notin> set (columns hist_df)"
    and "''price_val'' \<in> set (columns value_df)"
    and "''price'' \<notin> fst ` set bond_info" and "''trade_date'' \<notin> fst ` set bond_info"
    and "''price'' \<notin> set (columns stock_df)"
  shows "(\<lambda>r. (r ''trade_date'', r ''price'')) ` set (rows out) =
           (\<Union>h \<in> set (rows hist_df).
              if (\<forall>v \<in> set (rows value_df). \<not> v ''trade_date'' = h ''trade_date'')
              then {(h ''trade_date'', h ''price'')}
              else (\<lambda>v. (h ''trade_date'', if h ''price'' = Null then v ''price_val'' else h ''price''))
                     ` {v \<in> set (rows value_df). v ''trade_date'' = h ''trade_date''})
    \<and> map_sum id (\<lambda>d. (get_column ''trade_date'' d, get_column ''price'' d))
         (merge_bond_data pad primary_prices valuation_prices pd_DataFrame
            [(''bond_code'', Str ''113001'')])
        = Inr ([Str ''2024-01-02'', Str ''2024-01-03'', Str ''2024-01-04''],
               [Num 10, Num 11, Num 12])"
proof
  let ?g = "\<lambda>r::row. (r ''trade_date'', r ''price'')"
  let ?bc = "\<lambda>df. foldl (\<lambda>df (key, v). assign_scalar key v df) df bond_info"
  from assms(1,2) obtain merged df where
    mv: "merge_valuation hist_df value_df = Inr merged"
    and st: "(if \<not> df_empty stock_df
              then merge_left ''trade_date'' (''_x'', ''_y'') (?bc merged) stock_df
              else Inr (?bc merged)) = Inr df"
    and dm: "calculate_derived_metrics pad df = Inr out"
    by (auto simp: merge_bond_data_def Let_def split: sum.splits)
  have td: "''trade_date'' \<in> set (columns hist_df)"
    using mv assms(3) by (auto simp: merge_valuation_def merge_left_def split: sum.splits if_splits)
  from merge_valuation_pairs [OF mv assms(3) td assms(4,5,6)]
  have E: "?g ` set (rows merged) =
           (\<Union>h \<in> set (rows hist_df).
              if (\<forall>v \<in> set (rows value_df). \<not> v ''trade_date'' = h ''trade_date'')
              then {(h ''trade_date'', h ''price'')}
              else (\<lambda>v. (h ''trade_date'', if h ''price'' = Null then v ''price_val'' else h ''price''))
                     ` {v \<in> set (rows value_df). v ''trade_date'' = h ''trade_date''})"
    and cm: "''price'' \<in> set (columns merged)" "''trade_date'' \<in> set (columns merged)"
    by blast+
  from broadcast_keeps [OF assms(8,7), of merged]
  have b: "map ?g (rows (?bc merged)) = map ?g (rows merged)"
    and cb: "set (columns merged) \<subseteq> set (columns (?bc merged))" by blast+
  have s: "?g ` set (rows df) = ?g ` set (rows (?bc merged))"
  proof (cases "df_empty stock_df")
    case True
    with st show ?thesis by simp
  next
    case False
    with st have "merge_left ''trade_date'' (''_x'', ''_y'') (?bc merged) stock_df = Inr df" by simp
    then show ?thesis
      by (rule merge_left_keeps) (use cm cb assms(9) in auto)
  qed
  have "?g ` set (rows out) = ?g ` set (rows df)"
    using dm by (rule derived_metrics_keeps) simp_all
  also have "\<dots> = set (map ?g (rows (?bc merged)))" using s by simp
  also have "\<dots> = ?g ` set (rows merged)" unfolding b by simp
  finally show "?g ` set (rows out) =
           (\<Union>h \<in> set (rows hist_df).
              if (\<forall>v \<in> set (rows value_df). \<not> v ''trade_date'' = h ''trade_date'')
              then {(h ''trade_date'', h ''price'')}
              else (\<lambda>v. (h ''trade_date'', if h ''price'' = Null then v ''price_val'' else h ''price''))
                     ` {v \<in> set (rows value_df). v ''trade_date'' = h ''trade_date''})"
    using E by simp
next
  show "map_sum id (\<lambda>d. (get_column ''trade_date'' d, get_column ''price'' d))
         (merge_bond_data pad primary_prices valuation_prices pd_DataFrame
            [(''bond_code'', Str ''113001'')])
        = Inr ([Str ''2024-01-02'', Str ''2024-01-03'', Str ''2024-01-04''],
               [Num 10, Num 11, Num 12])"
    by (simp add: merge_eval metrics_eval primary_prices_def valuation_prices_def)
qed

theorem merge_primary_price_wins_witness:
  "\<not> df_empty primary_prices \<and> \<not> df_empty valuation_prices
   \<and> ''price'' \<in> set (columns primary_prices) \<and> ''price_val'' \<notin> set (columns primary_prices)
   \<and> ''price_val'' \<in> set (columns valuation_prices)
   \<and> ''price'' \<notin> fst ` set [(''bond_code'', Str ''113001'')]
   \<and> ''trade_date'' \<notin> fst ` set [(''bond_code'', Str ''113001'')]
   \<and> ''price'' \<notin> set (columns pd_DataFrame)
   \<and> map_sum id (\<lambda>d. (\<lambda>r. (r ''trade_date'', r ''price'')) ` set (rows d))
        (merge_bond_data True primary_prices valuation_prices pd_DataFrame
           [(''bond_code'', Str ''113001'')])
      = Inr {(Str ''2024-01-02'', Num 10), (Str ''2024-01-03'', Num 11), (Str ''2024-01-04'', Num 12)}"
proof -
  have "\<exists>out. merge_bond_data True primary_prices valuation_prices pd_DataFrame
                 [(''bond_code'', Str ''113001'')] = Inr out"
    by (simp add: merge_eval metrics_eval primary_prices_def valuation_prices_def)
  then obtain out where o: "merge_bond_data True primary_prices valuation_prices pd_DataFrame
                 [(''bond_code'', Str ''113001'')] = Inr out" ..
  have h: "\<not> df_empty primary_prices" "\<not> df_empty valuation_prices"
    "''price'' \<in> set (columns primary_prices)" "''price_val'' \<notin> set (columns primary_prices)"
    "''price_val'' \<in> set (columns valuation_prices)"
    "''price'' \<notin> fst ` set [(''bond_code'', Str ''113001'')]"
    "''trade_date'' \<notin> fst ` set [(''bond_code'', Str ''113001'')]"
    "''price'' \<notin> set (columns pd_DataFrame)"
    by (simp_all add: primary_prices_def valuation_prices_def df_empty_def pd_DataFrame_def)
  have e: "(\<Union>h \<in> set (rows primary_prices).
              if (\<forall>v \<in> set (rows valuation_prices). \<not> v ''trade_date'' = h ''trade_date'')
              then {(h ''trade_date'', h ''price'')}
              else (\<lambda>v. (h ''trade_date'', if h ''price'' = Null then v ''price_val'' else h ''price''))
                     ` {v \<in> set (rows valuation_prices). v ''trade_date'' = h ''trade_date''})
         = {(Str ''2024-01-02'', Num 10), (Str ''2024-01-03'', Num 11), (Str ''2024-01-04'', Num 12)}"
    unfolding set_filter [symmetric]
    by (simp add: primary_prices_def valuation_prices_def mk_row_def insert_commute)
  from merge_primary_price_wins [OF o h]
  have "(\<lambda>r. (r ''trade_date'', r ''price'')) ` set (rows out) =
          {(Str ''2024-01-02'', Num 10), (Str ''2024-01-03'', Num 11), (Str ''2024-01-04'', Num 12)}"
    unfolding e by blast
  with o h show ?thesis by simp
qed


section \<open>Properties of the persister\<close>











section \<open>Properties of the static backfill\<close>

lemmas backfill_eval = backfill_static_fields_def backfill_fields_def update_where_null_def
  isna_def mk_row_def

lemma preserved_refl: "preserved S h h"
  by (simp add: preserved_def)

lemma preserved_update:
  assumes "preserved S h h1" and "s \<in> S" and "s field \<noteq> Null" and "field \<in> set backfill_fields"
    and "h1 ''bond_code'' = s ''bond_code''" and "h1 field = Null"
  shows "preserved S h (h1(field := s field))"
proof -
  have fb: "field \<noteq> ''bond_code''" using assms(4) by (auto simp: backfill_fields_def)
  have hn: "h field = Null" using assms(1,6) by (auto simp: preserved_def)
  have sb: "s ''bond_code'' = h ''bond_code''" using assms(1,5) by (simp add: preserved_def)
  have old: "h' ''bond_code'' = h ''bond_code''
     \<and> (\<forall>c. (h c \<noteq> Null \<longrightarrow> h' c = h c)
            \<and> (h' c \<noteq> h c \<longrightarrow> c \<in> set backfill_fields
                  \<and> (\<exists>s \<in> S. s ''bond_code'' = h ''bond_code'' \<and> s c \<noteq> Null \<and> h' c = s c)))"
    if "h' = h1" for h' using assms(1) that by (simp add: preserved_def)
  show ?thesis
    unfolding preserved_def
  proof (intro conjI allI)
    show "(h1(field := s field)) ''bond_code'' = h ''bond_code''"
      using fb old [OF refl] by simp
  next
    fix c
    show "h c \<noteq> Null \<longrightarrow> (h1(field := s field)) c = h c"
      using hn old [OF refl] by (cases "c = field") auto
  next
    fix c
    show "(h1(field := s field)) c \<noteq> h c \<longrightarrow>
          c \<in> set backfill_fields \<and>
          (\<exists>s' \<in> S. s' ''bond_code'' = h ''bond_code'' \<and> s' c \<noteq> Null \<and> (h1(field := s field)) c = s' c)"
    proof (cases "c = field")
      case True
      then show ?thesis using assms(2,3,4) sb by auto
    next
      case False
      then show ?thesis using old [OF refl] by simp
    qed
  qed
qed

lemma preserved_update_where_null:
  assumes "list_all2 (preserved S) orig stored" and "s \<in> S" and "s field \<noteq> Null"
    and "field \<in> set backfill_fields"
  shows "list_all2 (preserved S) orig (update_where_null field (s field) (s ''bond_code'') stored)"
  using assms(1)
proof (induction rule: list_all2_induct)
  case Nil
  then show ?case by (simp add: update_where_null_def)
next
  case (Cons h orig h1 stored)
  have "preserved S h (if s ''bond_code'' \<noteq> Null \<and> h1 ''bond_code'' = s ''bond_code'' \<and> h1 field = Null
                        then h1(field := s field) else h1)"
    using Cons.hyps(1) preserved_update [OF Cons.hyps(1) assms(2,3,4)] by simp
  with Cons.IH show ?case by (simp add: update_where_null_def)
qed

lemma preserved_backfill_field:
  assumes "backfill_field field srows t = Inr t'" and "list_all2 (preserved S) orig (trows t)"
    and "set srows \<subseteq> S" and "field \<in> set backfill_fields"
  shows "list_all2 (preserved S) orig (trows t') \<and> tcolumns t' = tcolumns t"
  using assms(1,2,3)
proof (induction srows arbitrary: t)
  case Nil
  then show ?case by simp
next
  case (Cons s srows)
  show ?case
  proof (cases "isna (s field)")
    case True
    with Cons show ?thesis by simp
  next
    case False
    let ?t1 = "t\<lparr>trows := update_where_null field (s field) (s ''bond_code'') (trows t)\<rparr>"
    from Cons.prems(1) False have r: "backfill_field field srows ?t1 = Inr t'"
      by (simp split: if_splits)
    have "list_all2 (preserved S) orig (trows ?t1)"
      using preserved_update_where_null [OF Cons.prems(2) _ _ assms(4), of s] False Cons.prems(3)
      by (simp add: isna_def)
    from Cons.IH [OF r this] Cons.prems(3) show ?thesis by simp
  qed
qed

lemma preserved_backfill_loop:
  assumes "backfill_loop fs latest_df t = Inr t'" and "list_all2 (preserved S) orig (trows t)"
    and "set (rows latest_df) \<subseteq> S" and "set fs \<subseteq> set backfill_fields"
  shows "list_all2 (preserved S) orig (trows t') \<and> tcolumns t' = tcolumns t"
  using assms(1,2,4)
proof (induction fs arbitrary: t)
  case Nil
  then show ?case by simp
next
  case (Cons f fs)
  show ?case
  proof (cases "f \<in> set (columns latest_df)")
    case False
    with Cons show ?thesis by simp
  next
    case True
    with Cons.prems(1) obtain t1 where
      a: "backfill_field f (rows latest_df) t = Inr t1" and b: "backfill_loop fs latest_df t1 = Inr t'"
      by (auto split: sum.splits)
    from preserved_backfill_field [OF a Cons.prems(2) assms(3)] Cons.prems(3)
    have "list_all2 (preserved S) orig (trows t1)" "tcolumns t1 = tcolumns t" by auto
    with Cons.IH [OF b] Cons.prems(3) show ?thesis by simp
  qed
qed

lemma fills_backfill_field:
  assumes "backfill_field field srows t = Inr t'" and "field \<noteq> ''bond_code''"
  shows "list_all2 (fills field (set srows)) (trows t) (trows t')"
  using assms(1)
proof (induction srows arbitrary: t)
  case Nil
  then have "t' = t" by simp
  then show ?case by (simp add: list_all2_refl fills_def)
next
  case (Cons s srows)
  show ?case
  proof (cases "isna (s field)")
    case True
    with Cons.prems have "backfill_field field srows t = Inr t'" by simp
    from Cons.IH [OF this] show ?thesis
      by (rule list_all2_mono) (use True in \<open>auto simp: fills_def isna_def\<close>)
  next
    case False
    let ?U = "\<lambda>h::row. if s ''bond_code'' \<noteq> Null \<and> h ''bond_code'' = s ''bond_code'' \<and> h field = Null
                       then h(field := s field) else h"
    let ?t1 = "t\<lparr>trows := update_where_null field (s field) (s ''bond_code'') (trows t)\<rparr>"
    from Cons.prems False have r: "backfill_field field srows ?t1 = Inr t'"
      by (simp split: if_splits)
    have "trows ?t1 = map ?U (trows t)" by (simp add: update_where_null_def)
    with Cons.IH [OF r] have "list_all2 (\<lambda>h. fills field (set srows) (?U h)) (trows t) (trows t')"
      by (simp add: list_all2_map1)
    then show ?thesis
    proof (rule list_all2_mono)
      fix h h' assume f: "fills field (set srows) (?U h) h'"
      have sn: "s field \<noteq> Null" using False by (simp add: isna_def)
      have b: "?U h ''bond_code'' = h ''bond_code''" using assms(2) by simp
      have k: "h field \<noteq> Null \<Longrightarrow> ?U h field \<noteq> Null" by simp
      have m: "s ''bond_code'' = h ''bond_code'' \<Longrightarrow> s ''bond_code'' \<noteq> Null \<Longrightarrow> ?U h field \<noteq> Null"
        using sn by auto
      from f b have 1: "h' ''bond_code'' = h ''bond_code''" by (simp add: fills_def)
      from f k have 2: "h field \<noteq> Null \<longrightarrow> h' field \<noteq> Null" unfolding fills_def by blast
      have 3: "(\<exists>x \<in> set (s # srows). x ''bond_code'' = h ''bond_code'' \<and> x ''bond_code'' \<noteq> Null
                  \<and> x field \<noteq> Null) \<longrightarrow> h' field \<noteq> Null"
      proof
        assume "\<exists>x \<in> set (s # srows). x ''bond_code'' = h ''bond_code'' \<and> x ''bond_code'' \<noteq> Null
                  \<and> x field \<noteq> Null"
        then obtain x where x: "x \<in> set (s # srows)" "x ''bond_code'' = h ''bond_code''"
          "x ''bond_code'' \<noteq> Null" "x field \<noteq> Null" by blast
        show "h' field \<noteq> Null"
        proof (cases "x = s")
          case True
          with x m have "?U h field \<noteq> Null" by blast
          with f show ?thesis unfolding fills_def by blast
        next
          case False
          with x have "x \<in> set srows" by simp
          with x b have "\<exists>x \<in> set srows. x ''bond_code'' = ?U h ''bond_code'' \<and> x ''bond_code'' \<noteq> Null
                  \<and> x field \<noteq> Null" by auto
          with f show ?thesis unfolding fills_def by blast
        qed
      qed
      from 1 2 3 show "fills field (set (s # srows)) h h'" unfolding fills_def by blast
    qed
  qed
qed

lemma list_all2_compose:
  "list_all2 P xs ys \<Longrightarrow> list_all2 Q ys zs \<Longrightarrow> (\<And>x y z. P x y \<Longrightarrow> Q y z \<Longrightarrow> R x z)
     \<Longrightarrow> list_all2 R xs zs"
  by (rule list_all2_trans [where ?P1.0 = P and ?P2.0 = Q]) auto

lemma fills_backfill_loop:
  assumes "backfill_loop fs latest_df t = Inr t'" and "f \<in> set fs" and "f \<in> set (columns latest_df)"
    and "set fs \<subseteq> set backfill_fields"
  shows "list_all2 (fills f (set (rows latest_df))) (trows t) (trows t')"
  using assms(1,2,4)
proof (induction fs arbitrary: t)
  case Nil
  then show ?case by simp
next
  case (Cons g fs)
  let ?S = "set (rows latest_df)"
  have sub: "set fs \<subseteq> set backfill_fields" using Cons.prems(3) by simp
  show ?case
  proof (cases "g \<in> set (columns latest_df)")
    case False
    with Cons.prems assms(3) have "backfill_loop fs latest_df t = Inr t'" "f \<in> set fs" by auto
    then show ?thesis using sub by (rule Cons.IH)
  next
    case True
    with Cons.prems(1) obtain t1 where
      a: "backfill_field g (rows latest_df) t = Inr t1" and b: "backfill_loop fs latest_df t1 = Inr t'"
      by (auto split: sum.splits)
    have gf: "g \<in> set backfill_fields" using Cons.prems(3) by simp
    then have gb: "g \<noteq> ''bond_code''" by (auto simp: backfill_fields_def)
    show ?thesis
    proof (cases "f = g")
      case True
      have 1: "list_all2 (fills f ?S) (trows t) (trows t1)"
        using fills_backfill_field [OF a gb] True by simp
      have "list_all2 (preserved ?S) (trows t1) (trows t1)"
        by (simp add: list_all2_refl preserved_refl)
      from preserved_backfill_loop [OF b this _ sub]
      have 2: "list_all2 (preserved ?S) (trows t1) (trows t')" by simp
      show ?thesis
        by (rule list_all2_compose [OF 1 2]) (auto simp: fills_def preserved_def)
    next
      case False
      with Cons.prems(2) have "f \<in> set fs" by simp
      from Cons.IH [OF b this sub] have 1: "list_all2 (fills f ?S) (trows t1) (trows t')" .
      have "list_all2 (preserved ?S) (trows t) (trows t)"
        by (simp add: list_all2_refl preserved_refl)
      from preserved_backfill_field [OF a this _ gf]
      have 2: "list_all2 (preserved ?S) (trows t) (trows t1)" by simp
      show ?thesis
        by (rule list_all2_compose [OF 2 1]) (auto simp: fills_def preserved_def)
    qed
  qed
qed

text \<open>
  Claim C6: when the static-field backfill succeeds, the history table has the same rows in the
  same order, and for every row and every column: a cell that was not null is unchanged
  (whatever the snapshot holds); a cell that changed is one of the six backfill fields, was
  null, and holds the non-null value of a snapshot row with the row's bond code; and a backfill
  field of the snapshot for which a snapshot row of the row's bond has a non-null value is not
  null afterwards. A stored rating AA stays AA when the snapshot says AAA.
\<close>

theorem static_backfill_only_fills_nulls:
  assumes "backfill_static_fields latest_df t = Inr t'"
  shows "length (trows t') = length (trows t)
    \<and> (\<forall>i < length (trows t). \<forall>c.
          ((trows t ! i) c \<noteq> Null \<longrightarrow> (trows t' ! i) c = (trows t ! i) c)
        \<and> ((trows t' ! i) c \<noteq> (trows t ! i) c \<longrightarrow>
              c \<in> set backfill_fields \<and> (trows t ! i) c = Null
              \<and> (\<exists>s \<in> set (rows latest_df). s ''bond_code'' = (trows t ! i) ''bond_code''
                     \<and> s c \<noteq> Null \<and> (trows t' ! i) c = s c))
        \<and> (c \<in> set backfill_fields \<and> c \<in> set (columns latest_df)
              \<and> (\<exists>s \<in> set (rows latest_df). s ''bond_code'' = (trows t ! i) ''bond_code''
                     \<and> s ''bond_code'' \<noteq> Null \<and> s c \<noteq> Null)
            \<longrightarrow> (trows t' ! i) c \<noteq> Null))
    \<and> map_sum id (\<lambda>t. map (\<lambda>r. (r ''trade_date'', r ''bond_rating'', r ''conv_price'')) (trows t))
         (backfill_static_fields latest_snapshot rated_history)
        = Inr [(Str ''2024-01-02'', Str ''AA'', Num 9), (Str ''2024-01-03'', Str ''AAA'', Num 8)]"
proof -
  let ?S = "set (rows latest_df)"
  from assms have l: "backfill_loop backfill_fields latest_df t = Inr t'"
    by (simp add: backfill_static_fields_def split: if_splits)
  have "list_all2 (preserved ?S) (trows t) (trows t)"
    by (simp add: list_all2_refl preserved_refl)
  from preserved_backfill_loop [OF l this]
  have p: "list_all2 (preserved ?S) (trows t) (trows t')" by simp
  then have len: "length (trows t') = length (trows t)" by (simp add: list_all2_lengthD)
  have rows: "\<forall>i < length (trows t). \<forall>c.
          ((trows t ! i) c \<noteq> Null \<longrightarrow> (trows t' ! i) c = (trows t ! i) c)
        \<and> ((trows t' ! i) c \<noteq> (trows t ! i) c \<longrightarrow>
              c \<in> set backfill_fields \<and> (trows t ! i) c = Null
              \<and> (\<exists>s \<in> set (rows latest_df). s ''bond_code'' = (trows t ! i) ''bond_code''
                     \<and> s c \<noteq> Null \<and> (trows t' ! i) c = s c))
        \<and> (c \<in> set backfill_fields \<and> c \<in> set (columns latest_df)
              \<and> (\<exists>s \<in> set (rows latest_df). s ''bond_code'' = (trows t ! i) ''bond_code''
                     \<and> s ''bond_code'' \<noteq> Null \<and> s c \<noteq> Null)
            \<longrightarrow> (trows t' ! i) c \<noteq> Null)"
  proof (intro allI impI)
    fix i c assume i: "i < length (trows t)"
    let ?h = "trows t ! i" and ?h' = "trows t' ! i"
    from p i have pr: "preserved ?S ?h ?h'" by (simp add: list_all2_nthD)
    have 1: "?h c \<noteq> Null \<longrightarrow> ?h' c = ?h c" using pr unfolding preserved_def by blast
    have 2: "?h' c \<noteq> ?h c \<longrightarrow> c \<in> set backfill_fields \<and> ?h c = Null
              \<and> (\<exists>s \<in> ?S. s ''bond_code'' = ?h ''bond_code'' \<and> s c \<noteq> Null \<and> ?h' c = s c)"
      using pr unfolding preserved_def by metis
    have 3: "c \<in> set backfill_fields \<and> c \<in> set (columns latest_df)
              \<and> (\<exists>s \<in> ?S. s ''bond_code'' = ?h ''bond_code'' \<and> s ''bond_code'' \<noteq> Null \<and> s c \<noteq> Null)
            \<longrightarrow> ?h' c \<noteq> Null"
    proof
      assume a: "c \<in> set backfill_fields \<and> c \<in> set (columns latest_df)
              \<and> (\<exists>s \<in> ?S. s ''bond_code'' = ?h ''bond_code'' \<and> s ''bond_code'' \<noteq> Null \<and> s c \<noteq> Null)"
      then have "list_all2 (fills c ?S) (trows t) (trows t')"
        using fills_backfill_loop [OF l, of c] by simp
      with i have "fills c ?S ?h ?h'" by (simp add: list_all2_nthD)
      with a show "?h' c \<noteq> Null" unfolding fills_def by blast
    qed
    from 1 2 3 show "(?h c \<noteq> Null \<longrightarrow> ?h' c = ?h c)
        \<and> (?h' c \<noteq> ?h c \<longrightarrow> c \<in> set backfill_fields \<and> ?h c = Null
              \<and> (\<exists>s \<in> ?S. s ''bond_code'' = ?h ''bond_code'' \<and> s c \<noteq> Null \<and> ?h' c = s c))
        \<and> (c \<in> set backfill_fields \<and> c \<in> set (columns latest_df)
              \<and> (\<exists>s \<in> ?S. s ''bond_code'' = ?h ''bond_code'' \<and> s ''bond_code'' \<noteq> Null \<and> s c \<noteq> Null)
            \<longrightarrow> ?h' c \<noteq> Null)" by blast
  qed
  have ex: "map_sum id (\<lambda>t. map (\<lambda>r. (r ''trade_date'', r ''bond_rating'', r ''conv_price'')) (trows t))
         (backfill_static_fields latest_snapshot rated_history)
        = Inr [(Str ''2024-01-02'', Str ''AA'', Num 9), (Str ''2024-01-03'', Str ''AAA'', Num 8)]"
    by (simp add: backfill_eval latest_snapshot_def rated_history_def)
  from len rows ex show ?thesis by blast
qed

theorem static_backfill_only_fills_nulls_witness:
  "map_sum id (\<lambda>t. map (\<lambda>r. (r ''trade_date'', r ''bond_rating'', r ''conv_price'')) (trows t))
         (backfill_static_fields latest_snapshot rated_history)
        = Inr [(Str ''2024-01-02'', Str ''AA'', Num 9), (Str ''2024-01-03'', Str ''AAA'', Num 8)]
   \<and> map (\<lambda>r. (r ''trade_date'', r ''bond_rating'', r ''conv_price'')) (trows rated_history)
        = [(Str ''2024-01-02'', Str ''AA'', Null), (Str ''2024-01-03'', Null, Num 8)]
   \<and> map (\<lambda>r. (r ''bond_code'', r ''bond_rating'', r ''conv_price'')) (rows latest_snapshot)
        = [(Str ''113001'', Str ''AAA'', Num 9)]"
proof -
  have "\<exists>t'. backfill_static_fields latest_snapshot rated_history = Inr t'"
    by (simp add: backfill_eval latest_snapshot_def rated_history_def)
  then obtain t' where o: "backfill_static_fields latest_snapshot rated_history = Inr t'" ..
  have "map (\<lambda>r. (r ''trade_date'', r ''bond_rating'', r ''conv_price'')) (trows rated_history)
        = [(Str ''2024-01-02'', Str ''AA'', Null), (Str ''2024-01-03'', Null, Num 8)]"
    "map (\<lambda>r. (r ''bond_code'', r ''bond_rating'', r ''conv_price'')) (rows latest_snapshot)
        = [(Str ''113001'', Str ''AAA'', Num 9)]"
    by (simp_all add: latest_snapshot_def rated_history_def mk_row_def)
  with static_backfill_only_fills_nulls [OF o] show ?thesis by blast
qed


end
